theory Spec2Isabelle
  imports Main "HOL-Library.Word" "HOL-Library.Monad_Syntax"
begin

unbundle bit_operations_syntax

section \<open>Bytes and slices\<close>

type_synonym byte = "8 word"
type_synonym uint16 = "16 word"
type_synonym uint32 = "32 word"

text \<open>
  A Go slice is a window on a backing array: \<open>elems\<close> are its visible elements
  (\<open>s[0]\<close> to \<open>s[len(s)-1]\<close>) and \<open>spare\<close> the elements of the array that follow
  them, up to the capacity. A slice literal has no spare elements.
\<close>

datatype 'a slice = Slice (elems: "'a list") (spare: "'a list")

definition backing :: "'a slice \<Rightarrow> 'a list" where
  "backing s = elems s @ spare s"

definition slice_len :: "'a slice \<Rightarrow> nat" where
  "slice_len s = length (elems s)"

definition slice_cap :: "'a slice \<Rightarrow> nat" where
  "slice_cap s = length (backing s)"

text \<open>
  The slice expression \<open>s[lo:hi]\<close> on a slice panics unless
  \<open>lo \<le> hi \<le> cap(s)\<close>; \<open>None\<close> is the panic. A high bound between the length
  and the capacity is allowed and makes spare elements visible. The result keeps the
  rest of the array as its own spare elements.
\<close>

definition go_slice :: "'a slice \<Rightarrow> nat \<Rightarrow> nat \<Rightarrow> 'a slice option" where
  "go_slice s lo hi =
     (if lo \<le> hi \<and> hi \<le> slice_cap s
      then Some (Slice (take (hi - lo) (drop lo (backing s))) (drop hi (backing s)))
      else None)"

text \<open>
  The index expression \<open>s[i]\<close> panics unless \<open>i < len(s)\<close>: it sees the visible
  elements only, as a \<open>range\<close> loop and \<open>bytes.Equal\<close> do. Indexing and the
  functions that only index or range over their argument are therefore defined on the
  list of visible elements.
\<close>

definition index :: "'a list \<Rightarrow> nat \<Rightarrow> 'a option" where
  "index s i = (if i < length s then Some (s ! i) else None)"

text \<open>
  A Go function that returns \<open>(value, error)\<close> and may panic: \<open>Panic\<close> is the
  run-time panic, \<open>Err\<close> the returned error (with a nil value), \<open>Ok\<close> the
  returned value (with a nil error). Panics propagate through the option monad.
\<close>

type_synonym ('e, 'a) go = "('e + 'a) option"

abbreviation Panic :: "('e, 'a) go" where "Panic \<equiv> None"
abbreviation Err :: "'e \<Rightarrow> ('e, 'a) go" where "Err e \<equiv> Some (Inl e)"
abbreviation Ok :: "'a \<Rightarrow> ('e, 'a) go" where "Ok v \<equiv> Some (Inr v)"

subsection \<open>encoding/binary\<close>

text \<open>
  \<open>binary.LittleEndian.Uint16\<close>, \<open>Uint32\<close> and \<open>binary.BigEndian.Uint16\<close>
  index their argument (\<open>b[1]\<close>, \<open>b[3]\<close>), so they panic on a shorter slice.
\<close>

definition LittleEndian_Uint16 :: "byte list \<Rightarrow> uint16 option" where
  "LittleEndian_Uint16 b = do {
     b1 \<leftarrow> index b 1;
     b0 \<leftarrow> index b 0;
     Some (ucast b0 OR push_bit 8 (ucast b1))
   }"

definition BigEndian_Uint16 :: "byte list \<Rightarrow> uint16 option" where
  "BigEndian_Uint16 b = do {
     b1 \<leftarrow> index b 1;
     b0 \<leftarrow> index b 0;
     Some (ucast b1 OR push_bit 8 (ucast b0))
   }"

definition LittleEndian_Uint32 :: "byte list \<Rightarrow> uint32 option" where
  "LittleEndian_Uint32 b = do {
     b3 \<leftarrow> index b 3;
     b0 \<leftarrow> index b 0;
     b1 \<leftarrow> index b 1;
     b2 \<leftarrow> index b 2;
     Some (ucast b0 OR push_bit 8 (ucast b1) OR push_bit 16 (ucast b2) OR push_bit 24 (ucast b3))
   }"

text \<open>\<open>uint16ToBytes\<close> and \<open>uint32ToBytes\<close>, always called with
  \<open>binary.LittleEndian\<close>.\<close>

definition uint16ToBytes :: "uint16 \<Rightarrow> byte list" where
  "uint16ToBytes i = [ucast i, ucast (drop_bit 8 i)]"

definition uint32ToBytes :: "uint32 \<Rightarrow> byte list" where
  "uint32ToBytes i = [ucast i, ucast (drop_bit 8 i), ucast (drop_bit 16 i), ucast (drop_bit 24 i)]"

section \<open>crc.go and the checksum of solarman_client.go\<close>

text \<open>The loop of \<open>CheckSum\<close>: \<open>checksum += v & 0xFF\<close> on a byte.\<close>

fun CheckSum_loop :: "byte \<Rightarrow> byte list \<Rightarrow> byte" where
  "CheckSum_loop checksum [] = checksum"
| "CheckSum_loop checksum (v # b) = CheckSum_loop (checksum + (v AND 0xFF)) b"

definition CheckSum :: "byte list \<Rightarrow> byte" where
  "CheckSum b = CheckSum_loop 0 b AND 0xFF"

text \<open>One pass of the inner loop of \<open>CRCFromBytes\<close>.\<close>

definition crc_step :: "uint16 \<Rightarrow> uint16" where
  "crc_step crc = (if crc AND 0x01 = 0 then drop_bit 1 crc else drop_bit 1 crc XOR 0xA001)"

text \<open>\<open>for range 8\<close>.\<close>

primrec crc_range :: "nat \<Rightarrow> uint16 \<Rightarrow> uint16" where
  "crc_range 0 crc = crc"
| "crc_range (Suc n) crc = crc_range n (crc_step crc)"

fun CRC_loop :: "uint16 \<Rightarrow> byte list \<Rightarrow> uint16" where
  "CRC_loop crc [] = crc"
| "CRC_loop crc (v # data) = CRC_loop (crc_range 8 (crc XOR ucast v)) data"

definition CRCFromBytes :: "byte list \<Rightarrow> byte list" where
  "CRCFromBytes data =
     (let crc = CRC_loop 0xFFFF data;
          lo = (ucast crc :: byte);
          hi = (ucast (drop_bit 8 crc) :: byte)
      in [lo, hi])"

text \<open>\<open>modbus.ProtocolDataUnit\<close> of the grid-x/modbus library.\<close>

record ProtocolDataUnit =
  FunctionCode :: byte
  Data :: "byte list"

definition CRC :: "byte \<Rightarrow> ProtocolDataUnit \<Rightarrow> byte list" where
  "CRC SlaveID pdu = CRCFromBytes ([SlaveID, FunctionCode pdu] @ Data pdu)"

section \<open>types.go\<close>

definition StartByte :: byte where "StartByte = 0xA5"
definition EndByte :: byte where "EndByte = 0x15"
definition ControlCodeRequest :: uint16 where "ControlCodeRequest = 0x4510"
definition FrameType :: byte where "FrameType = 0x02"
definition SensorType :: uint16 where "SensorType = 0x0000"
definition TotalWorkingTime :: uint32 where "TotalWorkingTime = 0x00000000"
definition PowerOnTime :: uint32 where "PowerOnTime = 0x00000000"
definition OffsetTime :: uint32 where "OffsetTime = 0x00000000"

record Header =
  Start :: byte
  Length :: uint16
  ControlCode :: uint16
  SequenceNumber :: uint16
  LoggerSerialNumber :: uint32

text \<open>The fields of \<open>ResponsePayload\<close> carry the prefix \<open>p_\<close>: four of them share
  their names with the constants above.\<close>

record ResponsePayload =
  p_FrameType :: byte
  p_Status :: byte
  p_TotalWorkingTime :: uint32
  p_PowerOnTime :: uint32
  p_OffsetTime :: uint32
  p_ModbusRTUFrame :: ProtocolDataUnit

record Response =
  r_Header :: Header
  r_Payload :: ResponsePayload
  r_Checksum :: byte

text \<open>The errors of \<open>ParseHeader\<close> and \<open>Parse\<close>, one constructor for each
  \<open>fmt.Errorf\<close>, with the values the message prints.\<close>

datatype header_error =
    HeaderTooShort nat
  | FailedToReadStart
  | InvalidStartByte byte byte
  | FailedToReadLength
  | FailedToReadControlCode
  | FailedToReadSequenceNumber
  | FailedToReadLoggerSerialNumber

datatype parse_error =
    DataTooShort nat
  | FailedToParseHeader header_error
  | ChecksumMismatch byte byte
  | InvalidLength uint16 uint16
  | InvalidRTUFrame nat
  | CRCMismatch "byte list" "byte list"

text \<open>A \<open>bytes.Reader\<close> is the list of the bytes not read yet. \<open>ReadByte\<close> and
  \<open>binary.Read\<close> return an error (here \<open>None\<close>) when too few bytes are left.\<close>

definition ReadByte :: "byte list \<Rightarrow> (byte \<times> byte list) option" where
  "ReadByte reader = (case reader of [] \<Rightarrow> None | b # rest \<Rightarrow> Some (b, rest))"

definition Read_uint16 :: "byte list \<Rightarrow> (uint16 \<times> byte list) option" where
  "Read_uint16 reader =
     (if length reader < 2 then None
      else map_option (\<lambda>v. (v, drop 2 reader)) (LittleEndian_Uint16 (take 2 reader)))"

definition Read_uint32 :: "byte list \<Rightarrow> (uint32 \<times> byte list) option" where
  "Read_uint32 reader =
     (if length reader < 4 then None
      else map_option (\<lambda>v. (v, drop 4 reader)) (LittleEndian_Uint32 (take 4 reader)))"

definition ParseHeader :: "byte list \<Rightarrow> header_error + Header" where
  "ParseHeader data =
     (if length data < 11 then Inl (HeaderTooShort (length data))
      else case ReadByte data of
        None \<Rightarrow> Inl FailedToReadStart
      | Some (start, reader1) \<Rightarrow>
          if start \<noteq> StartByte then Inl (InvalidStartByte StartByte start)
          else case Read_uint16 reader1 of
            None \<Rightarrow> Inl FailedToReadLength
          | Some (length', reader2) \<Rightarrow>
          case Read_uint16 reader2 of
            None \<Rightarrow> Inl FailedToReadControlCode
          | Some (controlCode, reader3) \<Rightarrow>
          case Read_uint16 reader3 of
            None \<Rightarrow> Inl FailedToReadSequenceNumber
          | Some (sequenceNumber, reader4) \<Rightarrow>
          case Read_uint32 reader4 of
            None \<Rightarrow> Inl FailedToReadLoggerSerialNumber
          | Some (loggerSerialNumber, reader5) \<Rightarrow>
              Inr \<lparr>Start = start, Length = length', ControlCode = controlCode,
                   SequenceNumber = sequenceNumber,
                   LoggerSerialNumber = loggerSerialNumber\<rparr>)"

definition parseRTUFrame :: "byte slice \<Rightarrow> ProtocolDataUnit option" where
  "parseRTUFrame data = do {
     fc \<leftarrow> index (elems data) 1;
     d \<leftarrow> go_slice data 2 (slice_len data - 2);
     Some \<lparr>FunctionCode = fc, Data = elems d\<rparr>
   }"

text \<open>
  \<open>Parse\<close>. Every slice and index expression of the source is a step that may
  panic. \<open>len(data)-2\<close> is computed on naturals: it is reached only after
  \<open>len(data) < 11\<close> has been excluded. \<open>bytes.Equal\<close> compares the visible
  elements.
\<close>

definition Parse :: "byte slice \<Rightarrow> (parse_error, Response) go" where
  "Parse data =
     (if slice_len data < 11 then Err (DataTooShort (slice_len data))
      else do {
        head \<leftarrow> go_slice data 0 11;
        case ParseHeader (elems head) of
          Inl err \<Rightarrow> Err (FailedToParseHeader err)
        | Inr header \<Rightarrow> do {
            summed \<leftarrow> go_slice data 1 (slice_len data - 2);
            providedChecksum \<leftarrow> index (elems data) (slice_len data - 2);
            let calculatedChecksum = CheckSum (elems summed) in
            if calculatedChecksum \<noteq> providedChecksum
            then Err (ChecksumMismatch calculatedChecksum providedChecksum)
            else do {
              body \<leftarrow> go_slice data 11 (slice_len data - 2);
              let responseLength = (of_nat (slice_len body) :: uint16) in
              if Length header \<noteq> responseLength
              then Err (InvalidLength (Length header) responseLength)
              else do {
                rtu \<leftarrow> go_slice data 25 (slice_len data - 2);
                if slice_len rtu < 5 then Err (InvalidRTUFrame (slice_len rtu))
                else do {
                  providedCrc \<leftarrow> go_slice rtu (slice_len rtu - 2) (slice_len rtu);
                  covered \<leftarrow> go_slice rtu 0 (slice_len rtu - 2);
                  let expectedCrc = CRCFromBytes (elems covered) in
                  if elems providedCrc \<noteq> expectedCrc
                  then Err (CRCMismatch expectedCrc (elems providedCrc))
                  else do {
                    frameType \<leftarrow> index (elems data) 11;
                    status \<leftarrow> index (elems data) 12;
                    totalWorkingTime \<leftarrow> go_slice data 13 17 \<bind> (\<lambda>b. LittleEndian_Uint32 (elems b));
                    powerOnTime \<leftarrow> go_slice data 17 21 \<bind> (\<lambda>b. LittleEndian_Uint32 (elems b));
                    offsetTime \<leftarrow> go_slice data 21 25 \<bind> (\<lambda>b. LittleEndian_Uint32 (elems b));
                    frame \<leftarrow> go_slice data 25 (slice_len data - 2) \<bind> parseRTUFrame;
                    checksum \<leftarrow> index (elems data) (slice_len data - 1);
                    Ok \<lparr>r_Header = header,
                        r_Payload = \<lparr>p_FrameType = frameType, p_Status = status,
                                     p_TotalWorkingTime = totalWorkingTime,
                                     p_PowerOnTime = powerOnTime,
                                     p_OffsetTime = offsetTime,
                                     p_ModbusRTUFrame = frame\<rparr>,
                        r_Checksum = checksum\<rparr>
                  }
                }
              }
            }
          }
      })"

section \<open>solarman_client.go: the packager\<close>

record solarmanPackager =
  SlaveID :: byte
  LoggerSerial :: uint32
  serial :: byte

text \<open>\<open>getNextSerial\<close>: \<open>mb.serial++\<close> on a byte, then the new value.\<close>

definition getNextSerial :: "solarmanPackager \<Rightarrow> byte \<times> solarmanPackager" where
  "getNextSerial mb = (let mb' = mb\<lparr>serial := serial mb + 1\<rparr> in (serial mb', mb'))"

text \<open>
  \<open>Encode\<close> returns the bytes of the frame and the packager after the call; its
  error is always nil. \<open>request.Bytes()[1:]\<close> is \<open>drop 1\<close>: the buffer holds the
  start byte by then. The capacity that the buffer leaves behind the frame is no part of
  the result: the statements about a frame handed to \<open>Decode\<close> or \<open>Verify\<close> hold
  for every capacity.
\<close>

definition Encode :: "solarmanPackager \<Rightarrow> ProtocolDataUnit \<Rightarrow> byte list \<times> solarmanPackager" where
  "Encode mb pdu =
     (let payloadBytes =
            [FrameType] @ uint16ToBytes SensorType @ uint32ToBytes TotalWorkingTime
            @ uint32ToBytes PowerOnTime @ uint32ToBytes OffsetTime
            @ [SlaveID mb] @ [FunctionCode pdu] @ Data pdu @ CRC (SlaveID mb) pdu;
          (next, mb') = getNextSerial mb;
          request =
            [StartByte] @ uint16ToBytes (of_nat (length payloadBytes))
            @ uint16ToBytes ControlCodeRequest @ [next] @ [0x00]
            @ uint32ToBytes (LoggerSerial mb) @ payloadBytes;
          request = request @ [CheckSum (drop 1 request)];
          request = request @ [EndByte]
      in (request, mb'))"

text \<open>\<open>Decode\<close> and \<open>Verify\<close> never assign to their receiver, so the model
  returns no new packager.\<close>

definition Decode :: "solarmanPackager \<Rightarrow> byte slice \<Rightarrow> (parse_error, ProtocolDataUnit) go" where
  "Decode mb adu =
     (case Parse adu of
        None \<Rightarrow> Panic
      | Some (Inl err) \<Rightarrow> Err err
      | Some (Inr response) \<Rightarrow> Ok (p_ModbusRTUFrame (r_Payload response)))"

datatype verify_error =
    ResponseTooShort nat
  | InvalidResponseStartByte byte byte
  | ResponseChecksumMismatch byte byte
  | SequenceNumberMismatch uint16 uint16
  | ControlCodeMismatch uint16 uint16
  | LoggerSerialNumberMismatch "byte list" "byte list"

text \<open>
  \<open>Verify\<close>. The arguments of each \<open>fmt.Errorf\<close> are evaluated before the error
  is built, so the two \<open>binary.BigEndian.Uint16\<close> calls of the sequence-number
  branch are steps of their own.
\<close>

definition Verify :: "solarmanPackager \<Rightarrow> byte slice \<Rightarrow> byte slice \<Rightarrow> (verify_error, unit) go" where
  "Verify mb aduRequest aduResponse =
     (if slice_len aduResponse < 11 then Err (ResponseTooShort (slice_len aduResponse))
      else do {
        start \<leftarrow> index (elems aduResponse) 0;
        if start \<noteq> StartByte then Err (InvalidResponseStartByte StartByte start)
        else do {
          summed \<leftarrow> go_slice aduResponse 1 (slice_len aduResponse - 2);
          providedChecksum \<leftarrow> index (elems aduResponse) (slice_len aduResponse - 2);
          let calculatedChecksum = CheckSum (elems summed) in
          if calculatedChecksum \<noteq> providedChecksum
          then Err (ResponseChecksumMismatch calculatedChecksum providedChecksum)
          else do {
            requestSequence \<leftarrow> go_slice aduRequest 5 6;
            responseSequence \<leftarrow> go_slice aduResponse 5 6;
            if elems requestSequence \<noteq> elems responseSequence
            then do {
              shownRequest \<leftarrow> BigEndian_Uint16 (elems requestSequence);
              shownResponse \<leftarrow> BigEndian_Uint16 (elems responseSequence);
              Err (SequenceNumberMismatch shownRequest shownResponse)
            }
            else do {
              requestControlCode \<leftarrow> go_slice aduRequest 3 5 \<bind> (\<lambda>b. LittleEndian_Uint16 (elems b));
              responseControlCode \<leftarrow> go_slice aduResponse 3 5 \<bind> (\<lambda>b. LittleEndian_Uint16 (elems b));
              let expectedResponseControlCode = requestControlCode - 0x3000 in
              if responseControlCode \<noteq> expectedResponseControlCode
              then Err (ControlCodeMismatch expectedResponseControlCode responseControlCode)
              else do {
                requestLoggerSerial \<leftarrow> go_slice aduRequest 7 11;
                responseLoggerSerial \<leftarrow> go_slice aduResponse 7 11;
                if elems requestLoggerSerial \<noteq> elems responseLoggerSerial
                then Err (LoggerSerialNumberMismatch (elems requestLoggerSerial)
                           (elems responseLoggerSerial))
                else Ok ()
              }
            }
          }
        }
      })"

text \<open>Consecutive \<open>Encode\<close> calls on one packager: the frames in order, and the
  packager after the last call.\<close>

fun Encode_all :: "solarmanPackager \<Rightarrow> ProtocolDataUnit list \<Rightarrow> byte list list \<times> solarmanPackager" where
  "Encode_all mb [] = ([], mb)"
| "Encode_all mb (pdu # pdus) =
     (let (adu, mb1) = Encode mb pdu;
          (adus, mb2) = Encode_all mb1 pdus
      in (adu # adus, mb2))"

section \<open>solarman_client.go: the transporter\<close>

text \<open>
  The errors of the socket: an errno of the operating system (as \<open>net.Conn\<close>
  wraps it) or the short-write error that \<open>write\<close> builds itself.
  \<open>errors.Is(err, syscall.EPIPE)\<close> holds for the errno 32 only.
\<close>

datatype ioerr = Errno nat | ShortWrite nat nat

definition EPIPE :: nat where "EPIPE = 32"

fun errors_Is_EPIPE :: "ioerr option \<Rightarrow> bool" where
  "errors_Is_EPIPE None = False"
| "errors_Is_EPIPE (Some (Errno n)) = (n = EPIPE)"
| "errors_Is_EPIPE (Some (ShortWrite n m)) = False"

text \<open>
  The network is a parameter: what the k-th \<open>Dial\<close>, the k-th \<open>conn.Write\<close>
  and the k-th \<open>conn.Read\<close> of a run answer. A write answers the number of bytes
  written and an error, a read the bytes received and an error.
\<close>

record network =
  net_Dial :: "nat \<Rightarrow> ioerr option"
  net_Write :: "nat \<Rightarrow> byte list \<Rightarrow> nat \<times> ioerr option"
  net_Read :: "nat \<Rightarrow> byte list \<times> ioerr option"

text \<open>What the transporter does to the network, in order. A connection is named by
  the number of the dial that opened it.\<close>

datatype event = Dialed | Closed nat | Wrote nat "byte list" | ReadFrom nat

text \<open>
  The transporter: \<open>conn\<close> is the socket (\<open>None\<close> is nil), the counters number
  the calls made so far and \<open>trace\<close> records them. The mutex, the timeout, the
  connect delay and the logger do not change what \<open>Send\<close> returns and are left out.
\<close>

record solarmanTransporter =
  conn :: "nat option"
  dials :: nat
  writes :: nat
  reads :: nat
  trace :: "event list"

definition connect :: "network \<Rightarrow> solarmanTransporter \<Rightarrow> ioerr option \<times> solarmanTransporter" where
  "connect net mb =
     (if conn mb = None then
        (let mb1 = mb\<lparr>dials := dials mb + 1, trace := trace mb @ [Dialed]\<rparr> in
         case net_Dial net (dials mb) of
           Some err \<Rightarrow> (Some err, mb1)
         | None \<Rightarrow> (None, mb1\<lparr>conn := Some (dials mb)\<rparr>))
      else (None, mb))"

definition reconnect :: "network \<Rightarrow> solarmanTransporter \<Rightarrow> ioerr option \<times> solarmanTransporter" where
  "reconnect net mb =
     (case conn mb of
        None \<Rightarrow> connect net mb
      | Some c \<Rightarrow> connect net (mb\<lparr>conn := None, trace := trace mb @ [Closed c]\<rparr>))"

text \<open>The methods \<open>write\<close> and \<open>read\<close> (here \<open>mb_write\<close> and \<open>mb_read\<close>) call a
  method of \<open>mb.conn\<close>: a nil connection is a panic (\<open>None\<close>).\<close>

definition mb_write :: "network \<Rightarrow> solarmanTransporter \<Rightarrow> byte list \<Rightarrow> (ioerr option \<times> solarmanTransporter) option" where
  "mb_write net mb request =
     (case conn mb of
        None \<Rightarrow> None
      | Some c \<Rightarrow>
          (let (n, err) = net_Write net (writes mb) request;
               mb1 = mb\<lparr>writes := writes mb + 1, trace := trace mb @ [Wrote c request]\<rparr>
           in case err of
                Some e \<Rightarrow> Some (Some e, mb1)
              | None \<Rightarrow>
                  if n < length request then Some (Some (ShortWrite n (length request)), mb1)
                  else Some (None, mb1)))"

definition mb_read :: "network \<Rightarrow> solarmanTransporter \<Rightarrow> ((byte list \<times> ioerr option) \<times> solarmanTransporter) option" where
  "mb_read net mb =
     (case conn mb of
        None \<Rightarrow> None
      | Some c \<Rightarrow>
          (let (received, err) = net_Read net (reads mb);
               response = take 1024 received;
               mb1 = mb\<lparr>reads := reads mb + 1, trace := trace mb @ [ReadFrom c]\<rparr>
           in Some ((response, err), mb1)))"

text \<open>The errors \<open>Send\<close> returns: the four wrapped ones, and the error of the first
  read, which the final bare \<open>return\<close> hands back as it is.\<close>

datatype send_error =
    FailedToConnect ioerr
  | FailedToReconnect ioerr
  | FailedToWrite ioerr
  | FailedToRead ioerr
  | Unwrapped ioerr

text \<open>The second half of \<open>Send\<close>, from \<open>aduResponse, err = mb.read()\<close> on.\<close>

definition Send_read :: "network \<Rightarrow> solarmanTransporter \<Rightarrow> byte list \<Rightarrow>
    ((byte list \<times> send_error option) \<times> solarmanTransporter) option" where
  "Send_read net mb aduRequest = do {
     ((aduResponse, err), mb1) \<leftarrow> mb_read net mb;
     if errors_Is_EPIPE err then
       (case reconnect net mb1 of
          (Some e, mb2) \<Rightarrow> Some (([], Some (FailedToReconnect e)), mb2)
        | (None, mb2) \<Rightarrow> do {
            (err, mb3) \<leftarrow> mb_write net mb2 aduRequest;
            case err of
              Some e \<Rightarrow> Some (([], Some (FailedToWrite e)), mb3)
            | None \<Rightarrow> do {
                ((aduResponse, err), mb4) \<leftarrow> mb_read net mb3;
                case err of
                  Some e \<Rightarrow> Some (([], Some (FailedToRead e)), mb4)
                | None \<Rightarrow> Some ((aduResponse, None), mb4)
              }
          })
     else Some ((aduResponse, map_option Unwrapped err), mb1)
   }"

text \<open>\<open>Send\<close> returns the pair \<open>(aduResponse, err)\<close> and the transporter after
  the call; \<open>None\<close> is a panic.\<close>

definition Send :: "network \<Rightarrow> solarmanTransporter \<Rightarrow> byte list \<Rightarrow>
    ((byte list \<times> send_error option) \<times> solarmanTransporter) option" where
  "Send net mb aduRequest =
     (case connect net mb of
        (Some e, mb1) \<Rightarrow> Some (([], Some (FailedToConnect e)), mb1)
      | (None, mb1) \<Rightarrow> do {
          (err, mb2) \<leftarrow> mb_write net mb1 aduRequest;
          if errors_Is_EPIPE err then
            (case reconnect net mb2 of
               (Some e, mb3) \<Rightarrow> Some (([], Some (FailedToReconnect e)), mb3)
             | (None, mb3) \<Rightarrow> do {
                 (err, mb4) \<leftarrow> mb_write net mb3 aduRequest;
                 case err of
                   Some e \<Rightarrow> Some (([], Some (FailedToWrite e)), mb4)
                 | None \<Rightarrow> Send_read net mb4 aduRequest
               })
          else Send_read net mb2 aduRequest
        })"

section \<open>The CRC-16 of the specification\<close>

text \<open>
  The specification's words, on natural numbers: the register starts at 0xFFFF; each
  byte is XORed into it and the register is then shifted right 8 times, the feedback
  0xA001 being XORed in whenever the bit shifted out was 1; the output is the low byte,
  then the high byte.
\<close>

definition spec_crc_bit :: "nat \<Rightarrow> nat" where
  "spec_crc_bit r = (if odd r then (r div 2) XOR 0xA001 else r div 2)"

definition spec_crc_byte :: "nat \<Rightarrow> nat \<Rightarrow> nat" where
  "spec_crc_byte r b = (spec_crc_bit ^^ 8) (r XOR b)"

definition spec_crc16 :: "nat list \<Rightarrow> nat list" where
  "spec_crc16 bs = (let r = foldl spec_crc_byte 0xFFFF bs in [r mod 256, r div 256])"

section \<open>Frames read by offset\<close>

text \<open>
  The vocabulary of the statements below: the fields of a frame named by their
  offsets, as the wire format lays them out. The little-endian integers at an offset:
\<close>

definition u16_at :: "byte list \<Rightarrow> nat \<Rightarrow> uint16" where
  "u16_at data i = ucast (data ! i) OR push_bit 8 (ucast (data ! (i + 1)))"

definition u32_at :: "byte list \<Rightarrow> nat \<Rightarrow> uint32" where
  "u32_at data i = ucast (data ! i) OR push_bit 8 (ucast (data ! (i + 1)))
       OR push_bit 16 (ucast (data ! (i + 2))) OR push_bit 24 (ucast (data ! (i + 3)))"

text \<open>The header (offsets 0 to 10) and the frame's outer checksum: the bytes from offset 1
  up to the checksum byte, which is the last but one.\<close>

definition header_at :: "byte list \<Rightarrow> Header" where
  "header_at data = \<lparr>Start = data ! 0, Length = u16_at data 1, ControlCode = u16_at data 3,
       SequenceNumber = u16_at data 5, LoggerSerialNumber = u32_at data 7\<rparr>"

definition checksum_ok :: "byte list \<Rightarrow> bool" where
  "checksum_ok data = (CheckSum (take (length data - 3) (drop 1 data)) = data ! (length data - 2))"

text \<open>The RTU segment of a response, from offset 25 up to the checksum byte, and the
  response read by offsets.\<close>

definition rtu_at :: "byte list \<Rightarrow> byte list" where
  "rtu_at data = take (length data - 27) (drop 25 data)"

definition response_at :: "byte list \<Rightarrow> Response" where
  "response_at data =
     \<lparr>r_Header = header_at data,
      r_Payload = \<lparr>p_FrameType = data ! 11, p_Status = data ! 12,
                   p_TotalWorkingTime = u32_at data 13, p_PowerOnTime = u32_at data 17,
                   p_OffsetTime = u32_at data 21,
                   p_ModbusRTUFrame = \<lparr>FunctionCode = data ! 26,
                                       Data = take (length data - 31) (drop 27 data)\<rparr>\<rparr>,
      r_Checksum = data ! (length data - 1)\<rparr>"

text \<open>The frame \<open>Encode\<close> builds, in two parts: its first 25 bytes (the header and all
  but the last byte of the fixed fields of the payload), and the bytes from offset 25 up
  to the checksum byte.\<close>

definition Encode_prefix :: "solarmanPackager \<Rightarrow> ProtocolDataUnit \<Rightarrow> byte list" where
  "Encode_prefix mb pdu =
     [StartByte] @ uint16ToBytes (of_nat (19 + length (Data pdu))) @ uint16ToBytes ControlCodeRequest
     @ [serial mb + 1, 0x00] @ uint32ToBytes (LoggerSerial mb)
     @ [FrameType] @ uint16ToBytes SensorType @ uint32ToBytes TotalWorkingTime
     @ uint32ToBytes PowerOnTime @ take 3 (uint32ToBytes OffsetTime)"

definition Encode_rtu :: "solarmanPackager \<Rightarrow> ProtocolDataUnit \<Rightarrow> byte list" where
  "Encode_rtu mb pdu = 0 # SlaveID mb # FunctionCode pdu # Data pdu @ CRC (SlaveID mb) pdu"

section \<open>Runs of the transporter\<close>

text \<open>The transporter's vocabulary: the error the k-th write ends with (as \<open>write\<close>
  computes it), the bytes and the error of the k-th read, the events a call added to the
  trace, and the closing of a socket among them.\<close>

definition write_error :: "network \<Rightarrow> nat \<Rightarrow> byte list \<Rightarrow> ioerr option" where
  "write_error net k request =
     (case net_Write net k request of
        (n, Some e) \<Rightarrow> Some e
      | (n, None) \<Rightarrow> if n < length request then Some (ShortWrite n (length request)) else None)"

definition read_error :: "network \<Rightarrow> nat \<Rightarrow> ioerr option" where
  "read_error net k = snd (net_Read net k)"

definition read_bytes :: "network \<Rightarrow> nat \<Rightarrow> byte list" where
  "read_bytes net k = take 1024 (fst (net_Read net k))"

definition new_events :: "solarmanTransporter \<Rightarrow> solarmanTransporter \<Rightarrow> event list" where
  "new_events mb mb' = drop (length (trace mb)) (trace mb')"

fun is_Closed :: "event \<Rightarrow> bool" where
  "is_Closed (Closed c) = True"
| "is_Closed _ = False"

text \<open>
  The first read of a run of \<open>Send\<close>, seen from the transporter \<open>mb\<close> that holds the
  socket \<open>c\<close> when the first write starts. The first read is reached unless the write
  met a broken pipe and the reconnect or the retried write failed. If the write met a
  broken pipe and was recovered, the read finds the socket of the next dial, two writes
  and one more dial made, and the events of that recovery in the trace; otherwise it
  finds the old socket and one write made.
\<close>

definition reaches_read :: "network \<Rightarrow> solarmanTransporter \<Rightarrow> byte list \<Rightarrow> bool" where
  "reaches_read net mb request =
     (if errors_Is_EPIPE (write_error net (writes mb) request)
      then net_Dial net (dials mb) = None \<and> write_error net (writes mb + 1) request = None
      else True)"

definition socket_at_read :: "network \<Rightarrow> solarmanTransporter \<Rightarrow> nat \<Rightarrow> byte list \<Rightarrow> nat" where
  "socket_at_read net mb c request =
     (if errors_Is_EPIPE (write_error net (writes mb) request) then dials mb else c)"

definition dials_at_read :: "network \<Rightarrow> solarmanTransporter \<Rightarrow> byte list \<Rightarrow> nat" where
  "dials_at_read net mb request =
     (if errors_Is_EPIPE (write_error net (writes mb) request) then dials mb + 1 else dials mb)"

definition writes_at_read :: "network \<Rightarrow> solarmanTransporter \<Rightarrow> byte list \<Rightarrow> nat" where
  "writes_at_read net mb request =
     (if errors_Is_EPIPE (write_error net (writes mb) request) then writes mb + 2
      else writes mb + 1)"

definition events_before_read :: "network \<Rightarrow> solarmanTransporter \<Rightarrow> nat \<Rightarrow> byte list \<Rightarrow> event list" where
  "events_before_read net mb c request =
     (if errors_Is_EPIPE (write_error net (writes mb) request)
      then [Wrote c request, Closed c, Dialed, Wrote (dials mb) request]
      else [Wrote c request])"

section \<open>Checksum and CRC\<close>

lemma byte_and_ff: "(v :: byte) AND 0xFF = v"
proof -
  have "(0xFF :: byte) = - 1" by simp
  then show ?thesis by (simp only: and.right_neutral)
qed

lemma unat_byte_lt: "unat (c :: byte) < 256"
  using unsigned_less [of c] by simp

lemma CheckSum_loop_sum: "unat (CheckSum_loop c b) = (unat c + sum_list (map unat b)) mod 256"
proof (induction b arbitrary: c)
  case Nil
  show ?case using unat_byte_lt [of c] by simp
next
  case (Cons v b)
  show ?case by (simp add: Cons.IH byte_and_ff unat_word_ariths mod_simps add.assoc)
qed

text \<open>
  C8. \<open>CheckSum\<close> of any byte sequence is the sum of its bytes modulo 256 (so it
  wraps for sums above 255); \<open>CheckSum [1, 2, 3, 4]\<close> is 0x0A and the checksum of the
  empty sequence is 0x00.
\<close>

theorem CheckSum_sum_mod_256:
  "unat (CheckSum b) = sum_list (map unat b) mod 256
   \<and> CheckSum [0x01, 0x02, 0x03, 0x04] = 0x0A
   \<and> CheckSum [] = 0x00"
proof (intro conjI)
  show "unat (CheckSum b) = sum_list (map unat b) mod 256"
    by (simp add: CheckSum_def byte_and_ff CheckSum_loop_sum)
  show "CheckSum [0x01, 0x02, 0x03, 0x04] = 0x0A" by code_simp
  show "CheckSum [] = 0x00" by code_simp
qed

lemma crc_step_spec: "unat (crc_step c) = spec_crc_bit (unat c)"
proof -
  have a: "unat (drop_bit 1 c) = unat c div 2"
    by (simp add: drop_bit_Suc unat_div)
  have "(c AND 1 = 0) = even c"
    by (simp add: and_one_eq mod_2_eq_odd)
  also have "\<dots> = even (unat c)"
    using bit_unsigned_iff [of c 0, where ?'a = nat] by (simp add: bit_0)
  finally have b: "(c AND 1 = 0) = even (unat c)" .
  have k: "unat (0xA001 :: uint16) = 0xA001" by simp
  show ?thesis
    by (simp only: crc_step_def spec_crc_bit_def b a unsigned_xor_eq k if_distrib [of unat]
          split: if_split) simp
qed

lemma crc_range_spec: "unat (crc_range n c) = (spec_crc_bit ^^ n) (unat c)"
  by (induction n arbitrary: c) (simp_all add: crc_step_spec funpow_swap1)

lemma unat_ucast_byte: "unat (ucast (v :: byte) :: uint16) = unat v"
  using unat_byte_lt [of v] by (simp add: unsigned_ucast_eq take_bit_eq_mod)

lemma CRC_loop_spec: "unat (CRC_loop c data) = foldl spec_crc_byte (unat c) (map unat data)"
  by (induction data arbitrary: c)
     (simp_all add: crc_range_spec spec_crc_byte_def unsigned_xor_eq unat_ucast_byte)

lemma unat_lo: "unat (ucast (c :: uint16) :: byte) = unat c mod 256"
  by (simp add: unsigned_ucast_eq take_bit_eq_mod)

lemma unat_hi: "unat (ucast (drop_bit 8 (c :: uint16)) :: byte) = unat c div 256"
proof -
  have "unat c < 65536" using unsigned_less [of c] by simp
  then have "unat c div 256 < 256" by simp
  then show ?thesis
    by (simp add: unsigned_ucast_eq take_bit_eq_mod unat_drop_bit_eq drop_bit_eq_div unat_div)
qed

text \<open>
  C9. \<open>CRCFromBytes\<close> is a function of its input that computes the reflected CRC-16
  of the specification (feedback 0xA001, register initially 0xFFFF, 8 shifts per byte,
  output low byte then high byte): read as numbers, its two bytes are those of
  \<open>spec_crc16\<close>. On \<open>[0x01, 0x03, 0x02, 0x71, 0x00, 0x01]\<close> it returns
  \<open>[0xD5, 0xA9]\<close>.
\<close>

theorem CRCFromBytes_refines_spec:
  "map unat (CRCFromBytes data) = spec_crc16 (map unat data)
   \<and> CRCFromBytes [0x01, 0x03, 0x02, 0x71, 0x00, 0x01] = [0xD5, 0xA9]"
proof (intro conjI)
  let ?crc = "CRC_loop 0xFFFF data"
  have init: "unat (0xFFFF :: uint16) = 0xFFFF" by simp
  have reg: "unat ?crc = foldl spec_crc_byte 0xFFFF (map unat data)"
    by (simp only: CRC_loop_spec init)
  have "map unat (CRCFromBytes data) = [unat ?crc mod 256, unat ?crc div 256]"
    by (simp only: CRCFromBytes_def Let_def list.map unat_hi) (simp only: unat_lo)
  then show "map unat (CRCFromBytes data) = spec_crc16 (map unat data)"
    by (simp only: reg spec_crc16_def Let_def)
  show "CRCFromBytes [0x01, 0x03, 0x02, 0x71, 0x00, 0x01] = [0xD5, 0xA9]" by code_simp
qed

section \<open>Slices and the header\<close>

text \<open>A slice expression whose high bound is within the length does not depend on the
  spare elements, and one whose low bound exceeds its high bound panics whatever the
  capacity.\<close>

lemma slice_len_Slice: "slice_len (Slice d sp) = length d"
  by (simp add: slice_len_def)

lemma go_slice_within:
  "lo \<le> hi \<Longrightarrow> hi \<le> length d \<Longrightarrow>
   go_slice (Slice d sp) lo hi = Some (Slice (take (hi - lo) (drop lo d)) (drop hi d @ sp))"
  by (simp add: go_slice_def slice_cap_def backing_def)

lemma go_slice_inverted: "hi < lo \<Longrightarrow> go_slice s lo hi = None"
  by (simp add: go_slice_def)

lemma go_slice_beyond_cap: "slice_cap s < hi \<Longrightarrow> go_slice s lo hi = None"
  by (simp add: go_slice_def)

lemma index_in_range: "i < length s \<Longrightarrow> index s i = Some (s ! i)"
  by (simp add: index_def)

lemma ReadByte_nth: "s \<noteq> [] \<Longrightarrow> ReadByte s = Some (s ! 0, drop 1 s)"
  by (cases s) (simp_all add: ReadByte_def)

lemma LittleEndian_Uint16_nth: "2 \<le> length b \<Longrightarrow> LittleEndian_Uint16 b = Some (u16_at b 0)"
  by (auto simp add: LittleEndian_Uint16_def index_def u16_at_def)

lemma LittleEndian_Uint32_nth: "4 \<le> length b \<Longrightarrow> LittleEndian_Uint32 b = Some (u32_at b 0)"
  by (auto simp add: LittleEndian_Uint32_def index_def u32_at_def numeral_2_eq_2)

lemma Read_uint16_nth: "2 \<le> length r \<Longrightarrow> Read_uint16 r = Some (u16_at r 0, drop 2 r)"
  by (simp add: Read_uint16_def LittleEndian_Uint16_nth u16_at_def)

lemma Read_uint32_nth: "4 \<le> length r \<Longrightarrow> Read_uint32 r = Some (u32_at r 0, drop 4 r)"
  by (simp add: Read_uint32_def LittleEndian_Uint32_nth u32_at_def)

lemma u16_at_drop: "n + i + 1 < length s \<Longrightarrow> u16_at (drop n s) i = u16_at s (n + i)"
  by (simp add: u16_at_def add.assoc)

lemma u32_at_drop: "n + i + 3 < length s \<Longrightarrow> u32_at (drop n s) i = u32_at s (n + i)"
  by (simp add: u32_at_def add.assoc)

lemma u16_at_take: "i + 1 < n \<Longrightarrow> u16_at (take n s) i = u16_at s i"
  by (simp add: u16_at_def)

lemma u32_at_take: "i + 3 < n \<Longrightarrow> u32_at (take n s) i = u32_at s i"
  by (simp add: u32_at_def)

lemma ParseHeader_nth:
  assumes "11 \<le> length h"
  shows "ParseHeader h = (if h ! 0 \<noteq> StartByte then Inl (InvalidStartByte StartByte (h ! 0))
                          else Inr (header_at h))"
proof -
  have ne: "h \<noteq> []" using assms by auto
  show ?thesis using assms
    by (simp add: ParseHeader_def ReadByte_nth [OF ne] Read_uint16_nth Read_uint32_nth
          u16_at_drop u32_at_drop header_at_def)
qed

lemma header_at_take: "header_at (take 11 data) = header_at data"
  by (simp add: header_at_def u16_at_take u32_at_take)

lemma ParseHeader_take:
  "11 \<le> length data \<Longrightarrow> data ! 0 = StartByte \<Longrightarrow> ParseHeader (take 11 data) = Inr (header_at data)"
  by (simp add: ParseHeader_nth header_at_take)

section \<open>The checks of Parse\<close>

lemma Parse_short: "length data < 11 \<Longrightarrow> Parse (Slice data rest) = Err (DataTooShort (length data))"
  by (simp add: Parse_def slice_len_Slice)

lemma Parse_bad_start:
  "11 \<le> length data \<Longrightarrow> data ! 0 \<noteq> StartByte \<Longrightarrow>
   Parse (Slice data rest) = Err (FailedToParseHeader (InvalidStartByte StartByte (data ! 0)))"
  by (simp add: Parse_def slice_len_Slice go_slice_within ParseHeader_nth)

lemma Parse_bad_checksum:
  assumes "11 \<le> length data" "data ! 0 = StartByte" "\<not> checksum_ok data"
  shows "Parse (Slice data rest) = Err (ChecksumMismatch (CheckSum (take (length data - 3) (drop 1 data)))
                 (data ! (length data - 2)))"
  using assms by (auto simp add: Parse_def slice_len_Slice go_slice_within go_slice_inverted index_def ParseHeader_take checksum_ok_def)

lemma Parse_no_body:
  assumes "11 \<le> length data" "data ! 0 = StartByte" "checksum_ok data" "length data < 13"
  shows "Parse (Slice data rest) = Panic"
  using assms by (auto simp add: Parse_def slice_len_Slice go_slice_within go_slice_inverted index_def ParseHeader_take checksum_ok_def)

lemma Parse_bad_length:
  assumes "13 \<le> length data" "data ! 0 = StartByte" "checksum_ok data"
    "u16_at data 1 \<noteq> of_nat (length data - 13)"
  shows "Parse (Slice data rest) = Err (InvalidLength (u16_at data 1) (of_nat (length data - 13)))"
  using assms by (auto simp add: Parse_def slice_len_Slice go_slice_within go_slice_inverted index_def ParseHeader_take checksum_ok_def header_at_def)

lemma Parse_no_rtu:
  assumes "13 \<le> length data" "data ! 0 = StartByte" "checksum_ok data"
    "u16_at data 1 = of_nat (length data - 13)" "length data < 27"
  shows "Parse (Slice data rest) = Panic"
  using assms by (auto simp add: Parse_def slice_len_Slice go_slice_within go_slice_inverted index_def ParseHeader_take checksum_ok_def header_at_def)

lemma Parse_short_rtu:
  assumes "27 \<le> length data" "data ! 0 = StartByte" "checksum_ok data"
    "u16_at data 1 = of_nat (length data - 13)" "length data < 32"
  shows "Parse (Slice data rest) = Err (InvalidRTUFrame (length data - 27))"
  using assms by (auto simp add: Parse_def slice_len_Slice go_slice_within go_slice_inverted index_def ParseHeader_take checksum_ok_def header_at_def)

lemma Parse_bad_crc:
  assumes "32 \<le> length data" "data ! 0 = StartByte" "checksum_ok data"
    "u16_at data 1 = of_nat (length data - 13)"
    "drop (length data - 29) (rtu_at data) \<noteq> CRCFromBytes (take (length data - 29) (rtu_at data))"
  shows "Parse (Slice data rest) = Err (CRCMismatch (CRCFromBytes (take (length data - 29) (rtu_at data)))
                 (drop (length data - 29) (rtu_at data)))"
  using assms by (auto simp add: Parse_def slice_len_Slice go_slice_within go_slice_inverted index_def ParseHeader_take checksum_ok_def header_at_def rtu_at_def)

lemma length_CRCFromBytes: "length (CRCFromBytes x) = 2"
  by (simp add: CRCFromBytes_def Let_def)

lemma Parse_accepts:
  assumes "32 \<le> length data" "data ! 0 = StartByte" "checksum_ok data"
    "u16_at data 1 = of_nat (length data - 13)"
    "drop (length data - 29) (rtu_at data) = CRCFromBytes (take (length data - 29) (rtu_at data))"
  shows "Parse (Slice data rest) = Ok (response_at data)"
proof -
  have a: "go_slice (Slice data rest) 13 17 \<bind> (\<lambda>b. LittleEndian_Uint32 (elems b)) = Some (u32_at data 13)"
    "go_slice (Slice data rest) 17 21 \<bind> (\<lambda>b. LittleEndian_Uint32 (elems b)) = Some (u32_at data 17)"
    "go_slice (Slice data rest) 21 25 \<bind> (\<lambda>b. LittleEndian_Uint32 (elems b)) = Some (u32_at data 21)"
    using assms(1) by (simp_all add: go_slice_within LittleEndian_Uint32_nth u32_at_take u32_at_drop)
  have b: "go_slice (Slice data rest) 25 (length data - 2) \<bind> parseRTUFrame =
     Some \<lparr>FunctionCode = data ! 26, Data = take (length data - 31) (drop 27 data)\<rparr>"
    using assms(1)
    by (auto simp add: go_slice_within slice_len_Slice parseRTUFrame_def index_def take_drop)
  show ?thesis
    using assms(1-4) assms(5) [symmetric] a b
    by (auto simp add: Parse_def slice_len_Slice go_slice_within go_slice_inverted index_def ParseHeader_take checksum_ok_def Let_def
        header_at_def rtu_at_def response_at_def)
qed

text \<open>
  The six checks of \<open>Parse\<close> in their order, each under the passing of the ones
  before it and on the frames long enough for its slice expression: (1) fewer than 11
  bytes; (2) a wrong start byte; (3) the checksum of the bytes from offset 1 up to the
  checksum byte differs from the byte at offset \<open>len - 2\<close>; (4) the declared payload
  length differs from the measured span \<open>len - 13\<close>; (5) the RTU segment from offset
  25 is shorter than 5 bytes; (6) the CRC-16 of the RTU segment without its last two
  bytes differs from those two bytes. A response is returned only when all six pass, and
  it is then the frame read by offsets.
\<close>

lemma Parse_checks_where_slices_exist:
  "(length data < 11 \<longrightarrow> Parse (Slice data rest) = Err (DataTooShort (length data)))
   \<and> (11 \<le> length data \<and> data ! 0 \<noteq> StartByte \<longrightarrow>
        Parse (Slice data rest) = Err (FailedToParseHeader (InvalidStartByte StartByte (data ! 0))))
   \<and> (11 \<le> length data \<and> data ! 0 = StartByte \<and> \<not> checksum_ok data \<longrightarrow>
        Parse (Slice data rest) = Err (ChecksumMismatch (CheckSum (take (length data - 3) (drop 1 data)))
                           (data ! (length data - 2))))
   \<and> (13 \<le> length data \<and> data ! 0 = StartByte \<and> checksum_ok data
        \<and> u16_at data 1 \<noteq> of_nat (length data - 13) \<longrightarrow>
        Parse (Slice data rest) = Err (InvalidLength (u16_at data 1) (of_nat (length data - 13))))
   \<and> (27 \<le> length data \<and> data ! 0 = StartByte \<and> checksum_ok data
        \<and> u16_at data 1 = of_nat (length data - 13) \<and> length (rtu_at data) < 5 \<longrightarrow>
        Parse (Slice data rest) = Err (InvalidRTUFrame (length (rtu_at data))))
   \<and> (27 \<le> length data \<and> data ! 0 = StartByte \<and> checksum_ok data
        \<and> u16_at data 1 = of_nat (length data - 13) \<and> 5 \<le> length (rtu_at data)
        \<and> drop (length (rtu_at data) - 2) (rtu_at data)
            \<noteq> CRCFromBytes (take (length (rtu_at data) - 2) (rtu_at data)) \<longrightarrow>
        Parse (Slice data rest) = Err (CRCMismatch (CRCFromBytes (take (length (rtu_at data) - 2) (rtu_at data)))
                           (drop (length (rtu_at data) - 2) (rtu_at data))))
   \<and> (\<forall>response. Parse (Slice data rest) = Ok response \<longrightarrow>
        11 \<le> length data \<and> data ! 0 = StartByte \<and> checksum_ok data
        \<and> u16_at data 1 = of_nat (length data - 13) \<and> 5 \<le> length (rtu_at data)
        \<and> drop (length (rtu_at data) - 2) (rtu_at data)
            = CRCFromBytes (take (length (rtu_at data) - 2) (rtu_at data))
        \<and> response = response_at data)"
proof -
  have p1: "length data < 11 \<longrightarrow> Parse (Slice data rest) = Err (DataTooShort (length data))"
    by (simp add: Parse_short)
  have p2: "11 \<le> length data \<and> data ! 0 \<noteq> StartByte \<longrightarrow>
        Parse (Slice data rest) = Err (FailedToParseHeader (InvalidStartByte StartByte (data ! 0)))"
    by (simp add: Parse_bad_start)
  have p3: "11 \<le> length data \<and> data ! 0 = StartByte \<and> \<not> checksum_ok data \<longrightarrow>
        Parse (Slice data rest) = Err (ChecksumMismatch (CheckSum (take (length data - 3) (drop 1 data)))
                           (data ! (length data - 2)))"
    by (simp add: Parse_bad_checksum)
  have p4: "13 \<le> length data \<and> data ! 0 = StartByte \<and> checksum_ok data
        \<and> u16_at data 1 \<noteq> of_nat (length data - 13) \<longrightarrow>
        Parse (Slice data rest) = Err (InvalidLength (u16_at data 1) (of_nat (length data - 13)))"
    using Parse_bad_length [of data] by blast
  have p5: "27 \<le> length data \<and> data ! 0 = StartByte \<and> checksum_ok data
        \<and> u16_at data 1 = of_nat (length data - 13) \<and> length (rtu_at data) < 5 \<longrightarrow>
        Parse (Slice data rest) = Err (InvalidRTUFrame (length (rtu_at data)))"
  proof
    assume h: "27 \<le> length data \<and> data ! 0 = StartByte \<and> checksum_ok data
        \<and> u16_at data 1 = of_nat (length data - 13) \<and> length (rtu_at data) < 5"
    then have "length (rtu_at data) = length data - 27" "length data < 32"
      by (auto simp add: rtu_at_def)
    with h show "Parse (Slice data rest) = Err (InvalidRTUFrame (length (rtu_at data)))"
      using Parse_short_rtu [of data] by metis
  qed
  have p6: "27 \<le> length data \<and> data ! 0 = StartByte \<and> checksum_ok data
        \<and> u16_at data 1 = of_nat (length data - 13) \<and> 5 \<le> length (rtu_at data)
        \<and> drop (length (rtu_at data) - 2) (rtu_at data)
            \<noteq> CRCFromBytes (take (length (rtu_at data) - 2) (rtu_at data)) \<longrightarrow>
        Parse (Slice data rest) = Err (CRCMismatch (CRCFromBytes (take (length (rtu_at data) - 2) (rtu_at data)))
                           (drop (length (rtu_at data) - 2) (rtu_at data)))"
  proof
    assume h: "27 \<le> length data \<and> data ! 0 = StartByte \<and> checksum_ok data
        \<and> u16_at data 1 = of_nat (length data - 13) \<and> 5 \<le> length (rtu_at data)
        \<and> drop (length (rtu_at data) - 2) (rtu_at data)
            \<noteq> CRCFromBytes (take (length (rtu_at data) - 2) (rtu_at data))"
    then have len: "length (rtu_at data) - 2 = length data - 29" "32 \<le> length data"
      by (auto simp add: rtu_at_def)
    from h show "Parse (Slice data rest) = Err (CRCMismatch (CRCFromBytes (take (length (rtu_at data) - 2) (rtu_at data)))
                           (drop (length (rtu_at data) - 2) (rtu_at data)))"
      unfolding len using len(2) Parse_bad_crc [of data] by blast
  qed
  have p7: "\<forall>response. Parse (Slice data rest) = Ok response \<longrightarrow>
        11 \<le> length data \<and> data ! 0 = StartByte \<and> checksum_ok data
        \<and> u16_at data 1 = of_nat (length data - 13) \<and> 5 \<le> length (rtu_at data)
        \<and> drop (length (rtu_at data) - 2) (rtu_at data)
            = CRCFromBytes (take (length (rtu_at data) - 2) (rtu_at data))
        \<and> response = response_at data"
  proof (intro allI impI)
    fix response
    assume ok: "Parse (Slice data rest) = Ok response"
    have l11: "11 \<le> length data"
      using ok Parse_short [of data] by (cases "length data < 11") simp_all
    have st: "data ! 0 = StartByte"
      using ok l11 Parse_bad_start [of data] by (cases "data ! 0 = StartByte") simp_all
    have cs: "checksum_ok data"
      using ok l11 st Parse_bad_checksum [of data] by (cases "checksum_ok data") simp_all
    have l13: "13 \<le> length data"
      using ok l11 st cs Parse_no_body [of data] by (cases "length data < 13") simp_all
    have dl: "u16_at data 1 = of_nat (length data - 13)"
      using ok l13 st cs Parse_bad_length [of data]
      by (cases "u16_at data 1 = of_nat (length data - 13)") simp_all
    have l27: "27 \<le> length data"
      using ok l13 st cs dl Parse_no_rtu [of data] by (cases "length data < 27") simp_all
    have l32: "32 \<le> length data"
      using ok l27 st cs dl Parse_short_rtu [of data] by (cases "length data < 32") simp_all
    then have len: "length (rtu_at data) - 2 = length data - 29" "5 \<le> length (rtu_at data)"
      by (auto simp add: rtu_at_def)
    have crc: "drop (length data - 29) (rtu_at data) = CRCFromBytes (take (length data - 29) (rtu_at data))"
      using ok l32 st cs dl Parse_bad_crc [of data]
      by (cases "drop (length data - 29) (rtu_at data) = CRCFromBytes (take (length data - 29) (rtu_at data))") simp_all
    have "response = response_at data"
      using ok Parse_accepts [OF l32 st cs dl crc] by simp
    with l11 st cs dl len crc
    show "11 \<le> length data \<and> data ! 0 = StartByte \<and> checksum_ok data
        \<and> u16_at data 1 = of_nat (length data - 13) \<and> 5 \<le> length (rtu_at data)
        \<and> drop (length (rtu_at data) - 2) (rtu_at data)
            = CRCFromBytes (take (length (rtu_at data) - 2) (rtu_at data))
        \<and> response = response_at data"
      by simp
  qed
  show ?thesis by (intro conjI p1 p2 p3 p4 p5 p6 p7)
qed

text \<open>
  C5. \<open>Parse\<close> is meant to validate a frame in strict order and to end every failed
  check with an error of its own. The code misses this on frames of 11 to 26 bytes with
  the right start byte and checksum: the length guard admits them, and the slice
  expressions \<open>data[11:len(data)-2]\<close> and \<open>data[25:len(data)-2]\<close> that prepare
  checks (4) and (5) panic before the check is made. An 11-byte frame that declares 5
  payload bytes and has none is not rejected for its length, and a 20-byte frame whose
  declared length 7 is right, and which has no RTU segment at all, is not rejected for
  its short RTU segment: on both \<open>Parse\<close> panics.
\<close>

theorem Parse_short_frames_panic_before_check:
  "Parse (Slice [0xA5, 0x05, 0x00, 0x10, 0x15, 0x01, 0x00, 0x4F, 0xAD, 0x27, 0xA5] []) = Panic
   \<and> Parse (Slice [0xA5, 0x07, 0x00, 0x10, 0x15, 0x01, 0x00, 0x4F, 0xAD, 0x6D, 0xA5,
                    0x00, 0x00, 0x00, 0x00, 0x00, 0x00, 0x00, 0x3B, 0x15] []) = Panic"
  by code_simp

text \<open>
  C4. \<open>Parse\<close> is not total: a frame of 11 to 26 bytes with the right start byte, a
  matching checksum and (from 13 bytes on, where it is compared) a matching declared
  length makes \<open>data[11:len(data)-2]\<close> or \<open>data[25:len(data)-2]\<close> a slice whose low
  bound exceeds its high bound, and \<open>Parse\<close> panics instead of returning an error,
  whatever the capacity of the frame's slice.
\<close>

theorem Parse_panics_on_short_frames:
  assumes "11 \<le> length data" and "length data \<le> 26"
    and "data ! 0 = StartByte" and "checksum_ok data"
    and "13 \<le> length data \<longrightarrow> u16_at data 1 = of_nat (length data - 13)"
  shows "Parse (Slice data rest) = Panic"
proof (cases "length data < 13")
  case True
  with assms show ?thesis by (simp add: Parse_no_body)
next
  case False
  with assms show ?thesis by (simp add: Parse_no_rtu)
qed

text \<open>An 11-byte frame, on which \<open>data[11:9]\<close> panics, and a 13-byte frame with
  declared length 0, on which \<open>data[25:11]\<close> panics.\<close>

theorem Parse_panics_on_short_frames_witness:
  "Parse (Slice [0xA5, 0x00, 0x00, 0x10, 0x15, 0x01, 0x00, 0x4F, 0xAD, 0x22, 0xA5] []) = Panic
   \<and> Parse (Slice [0xA5, 0x00, 0x00, 0x10, 0x15, 0x01, 0x00, 0x4F, 0xAD, 0x6D, 0xA5, 0x34, 0x15]
               []) = Panic"
proof
  let ?a = "[0xA5, 0x00, 0x00, 0x10, 0x15, 0x01, 0x00, 0x4F, 0xAD, 0x22, 0xA5] :: byte list"
  have "checksum_ok ?a" by code_simp
  then show "Parse (Slice ?a []) = Panic"
    using Parse_panics_on_short_frames [where data = ?a and rest = "[]"]
    by (simp add: StartByte_def)
next
  let ?b = "[0xA5, 0x00, 0x00, 0x10, 0x15, 0x01, 0x00, 0x4F, 0xAD, 0x6D, 0xA5, 0x34, 0x15] :: byte list"
  have "checksum_ok ?b" by code_simp
  moreover have "u16_at ?b 1 = 0" by code_simp
  ultimately show "Parse (Slice ?b []) = Panic"
    using Parse_panics_on_short_frames [where data = ?b and rest = "[]"]
    by (simp add: StartByte_def)
qed

section \<open>Decoding what Encode built\<close>

lemma crc_step_top_bit: "bit (crc_step a) 15 = (a AND 0x01 \<noteq> 0)"
proof -
  have "\<not> bit (drop_bit 1 a) 15" by (simp add: bit_drop_bit_eq bit_word_iff_drop_bit_and)
  moreover have "bit (0xA001 :: uint16) 15" by simp
  ultimately show ?thesis by (simp add: crc_step_def bit_xor_iff)
qed

lemma word_halves: "drop_bit 1 (a :: uint16) = drop_bit 1 b \<Longrightarrow> a AND 1 = b AND 1 \<Longrightarrow> a = b"
proof -
  assume h: "drop_bit 1 a = drop_bit 1 b" and l: "a AND 1 = b AND 1"
  have "a = a div 2 * 2 + a mod 2" by (rule div_mult_mod_eq [symmetric])
  also have "\<dots> = b div 2 * 2 + b mod 2"
    using h l by (simp add: drop_bit_Suc and_one_eq)
  also have "\<dots> = b" by (rule div_mult_mod_eq)
  finally show ?thesis .
qed

lemma xor_right_cancel: "(x :: uint16) XOR k = y XOR k \<Longrightarrow> x = y"
proof -
  assume "x XOR k = y XOR k"
  then have "(x XOR k) XOR k = (y XOR k) XOR k" by simp
  then show ?thesis by (simp add: xor.assoc)
qed

lemma crc_step_inj: "crc_step a = crc_step b \<Longrightarrow> a = b"
proof -
  assume eq: "crc_step a = crc_step b"
  then have low: "(a AND 1 = 0) = (b AND 1 = 0)"
    using crc_step_top_bit [of a] crc_step_top_bit [of b] by simp
  then have half: "drop_bit 1 a = drop_bit 1 b"
    using eq by (auto simp add: crc_step_def split: if_splits dest: xor_right_cancel)
  from low have "even a = even b"
    by (simp add: and_one_eq mod_2_eq_odd)
  then have "a AND 1 = b AND 1"
    by (simp add: and_one_eq mod_2_eq_odd)
  with half show ?thesis by (rule word_halves)
qed

lemma crc_range_inj: "crc_range n a = crc_range n b \<Longrightarrow> a = b"
  by (induction n arbitrary: a b) (auto dest: crc_step_inj)

lemma CRC_loop_inj: "CRC_loop a data = CRC_loop b data \<Longrightarrow> a = b"
proof (induction data arbitrary: a b)
  case Nil
  then show ?case by simp
next
  case (Cons v data)
  then have "crc_range 8 (a XOR ucast v) = crc_range 8 (b XOR ucast v)" by simp
  then have "a XOR ucast v = b XOR ucast v" by (rule crc_range_inj)
  then show ?case by (rule xor_right_cancel)
qed

lemma crc_bytes_inj:
  assumes "[ucast (a :: uint16) :: byte, ucast (drop_bit 8 a)] = [ucast b, ucast (drop_bit 8 b)]"
  shows "a = b"
proof -
  from assms have lo: "unat (ucast a :: byte) = unat (ucast b :: byte)"
    and hi: "unat (ucast (drop_bit 8 a) :: byte) = unat (ucast (drop_bit 8 b) :: byte)" by simp_all
  from lo have "unat a mod 256 = unat b mod 256" by (simp only: unat_lo)
  moreover from hi have "unat a div 256 = unat b div 256" by (simp only: unat_hi)
  ultimately have "unat a = unat b" by (metis div_mult_mod_eq)
  then show ?thesis using word_eq_iff_unsigned [where ?'a = nat, of a b] by simp
qed

lemma CRCFromBytes_inj_state:
  "CRCFromBytes (0 # data) \<noteq> CRCFromBytes data"
proof
  assume "CRCFromBytes (0 # data) = CRCFromBytes data"
  then have "CRC_loop 0xFFFF (0 # data) = CRC_loop 0xFFFF data"
    by (simp only: CRCFromBytes_def Let_def) (rule crc_bytes_inj)
  then have "CRC_loop (crc_range 8 (0xFFFF XOR ucast (0 :: byte))) data = CRC_loop 0xFFFF data"
    by (simp only: CRC_loop.simps)
  then have "crc_range 8 (0xFFFF XOR ucast (0 :: byte)) = 0xFFFF" by (rule CRC_loop_inj)
  moreover have "crc_range 8 (0xFFFF XOR ucast (0 :: byte)) \<noteq> 0xFFFF" by code_simp
  ultimately show False by simp
qed

lemma u16_roundtrip: "u16_at (uint16ToBytes x) 0 = x"
  unfolding u16_at_def uint16ToBytes_def
  by (rule bit_word_eqI) (auto simp add: bit_simps)

lemma length_Encode_prefix: "length (Encode_prefix mb pdu) = 25"
  by (simp add: Encode_prefix_def uint16ToBytes_def uint32ToBytes_def)

lemma length_Encode_rtu: "length (Encode_rtu mb pdu) = 5 + length (Data pdu)"
  by (simp add: Encode_rtu_def CRC_def length_CRCFromBytes)

lemma Encode_frame:
  "fst (Encode mb pdu) =
     Encode_prefix mb pdu @ Encode_rtu mb pdu
     @ [CheckSum (drop 1 (Encode_prefix mb pdu @ Encode_rtu mb pdu)), EndByte]"
  by (simp add: Encode_def getNextSerial_def Let_def Encode_prefix_def Encode_rtu_def
      uint16ToBytes_def uint32ToBytes_def CRC_def length_CRCFromBytes OffsetTime_def)

lemma Encode_state: "snd (Encode mb pdu) = mb\<lparr>serial := serial mb + 1\<rparr>"
  by (simp add: Encode_def getNextSerial_def Let_def)

lemma Encode_nth_prefix: "i < 25 \<Longrightarrow> fst (Encode mb pdu) ! i = Encode_prefix mb pdu ! i"
  by (simp add: Encode_frame nth_append length_Encode_prefix)

lemma Encode_length: "length (fst (Encode mb pdu)) = 32 + length (Data pdu)"
  by (simp add: Encode_frame length_Encode_prefix length_Encode_rtu)

lemma Encode_start: "fst (Encode mb pdu) ! 0 = StartByte"
  by (simp add: Encode_nth_prefix) (simp add: Encode_prefix_def)

lemma Encode_sequence_byte: "fst (Encode mb pdu) ! 5 = serial mb + 1"
  by (simp add: Encode_nth_prefix) (simp add: Encode_prefix_def uint16ToBytes_def)

lemma Encode_declared_length: "u16_at (fst (Encode mb pdu)) 1 = of_nat (19 + length (Data pdu))"
proof -
  have "u16_at (fst (Encode mb pdu)) 1 = u16_at (Encode_prefix mb pdu) 1"
    by (simp add: u16_at_def Encode_nth_prefix)
  also have "\<dots> = u16_at (uint16ToBytes (of_nat (19 + length (Data pdu)))) 0"
    by (simp add: u16_at_def Encode_prefix_def uint16ToBytes_def)
  finally show ?thesis by (simp only: u16_roundtrip)
qed

lemma Encode_checksum_ok: "checksum_ok (fst (Encode mb pdu))"
proof -
  let ?body = "Encode_prefix mb pdu @ Encode_rtu mb pdu"
  have len: "length ?body = 30 + length (Data pdu)"
    by (simp add: length_Encode_prefix length_Encode_rtu)
  have frame: "fst (Encode mb pdu) = ?body @ [CheckSum (drop 1 ?body), EndByte]"
    by (simp add: Encode_frame)
  have "take (length (fst (Encode mb pdu)) - 3) (drop 1 (fst (Encode mb pdu))) = drop 1 ?body"
    by (simp add: frame len)
  moreover have "fst (Encode mb pdu) ! (length (fst (Encode mb pdu)) - 2) = CheckSum (drop 1 ?body)"
    by (simp add: frame len nth_append)
  ultimately show ?thesis by (simp only: checksum_ok_def)
qed

lemma Encode_rtu_at: "rtu_at (fst (Encode mb pdu)) = Encode_rtu mb pdu"
  by (simp add: rtu_at_def Encode_frame length_Encode_prefix length_Encode_rtu)

text \<open>
  C1, as amended. \<open>Decode\<close> does not invert \<open>Encode\<close>. \<open>Encode\<close> writes the request
  layout, whose payload starts with 15 fixed bytes (frame type, a two-byte sensor type,
  three zeroed counters); \<open>Parse\<close> reads the response layout, whose payload starts with
  14 (frame type, a one-byte status, three counters), so its RTU segment starts one byte
  early, at the last zero byte of the fixed fields. For every packager and every request
  PDU the frame passes the length, start-byte, checksum, declared-length and RTU-length
  checks and fails the CRC check: the CRC sent covers slave id, function code and data,
  the CRC expected covers a zero byte before them, and the two always differ.
\<close>

theorem Decode_Encode_fails:
  "Decode mb' (Slice (fst (Encode mb pdu)) rest) =
     Err (CRCMismatch (CRCFromBytes (0 # SlaveID mb # FunctionCode pdu # Data pdu))
            (CRCFromBytes (SlaveID mb # FunctionCode pdu # Data pdu)))
   \<and> CRCFromBytes (0 # SlaveID mb # FunctionCode pdu # Data pdu)
       \<noteq> CRCFromBytes (SlaveID mb # FunctionCode pdu # Data pdu)"
proof -
  let ?data = "fst (Encode mb pdu)"
  let ?covered = "0 # SlaveID mb # FunctionCode pdu # Data pdu"
  let ?sent = "CRCFromBytes (SlaveID mb # FunctionCode pdu # Data pdu)"
  have len: "length ?data - 29 = Suc (Suc (Suc (length (Data pdu))))"
    by (simp add: Encode_length)
  have cov: "take (length ?data - 29) (rtu_at ?data) = ?covered"
    by (simp add: len Encode_rtu_at Encode_rtu_def)
  have prov: "drop (length ?data - 29) (rtu_at ?data) = ?sent"
    by (simp add: len Encode_rtu_at Encode_rtu_def CRC_def)
  have ne: "CRCFromBytes ?covered \<noteq> ?sent"
    by (rule CRCFromBytes_inj_state)
  have h1: "32 \<le> length ?data" by (simp add: Encode_length)
  have "length ?data - 13 = 19 + length (Data pdu)" by (simp add: Encode_length)
  then have h4: "u16_at ?data 1 = of_nat (length ?data - 13)"
    by (simp only: Encode_declared_length)
  have h5: "drop (length ?data - 29) (rtu_at ?data)
      \<noteq> CRCFromBytes (take (length ?data - 29) (rtu_at ?data))"
    using ne by (simp only: cov prov) simp
  have "Parse (Slice ?data rest) = Err (CRCMismatch (CRCFromBytes ?covered) ?sent)"
    using Parse_bad_crc [OF h1 Encode_start Encode_checksum_ok h4 h5] by (simp only: cov prov)
  then show ?thesis using ne by (simp add: Decode_def)
qed

text \<open>The round trip fails on the request of the encoding test (slave 1, function code
  3, data \<open>00 01 00 02\<close>): decoding the encoded frame is a CRC mismatch.\<close>

theorem Decode_Encode_counterexample:
  "Decode \<lparr>SlaveID = 0x01, LoggerSerial = 0x12345678, serial = 0\<rparr>
     (Slice (fst (Encode \<lparr>SlaveID = 0x01, LoggerSerial = 0x12345678, serial = 0\<rparr>
                   \<lparr>FunctionCode = 0x03, Data = [0x00, 0x01, 0x00, 0x02]\<rparr>)) [])
   = Err (CRCMismatch [0x8E, 0xD0] [0x95, 0xCB])"
  by code_simp

section \<open>The sequence counter\<close>

lemma Encode_all_state: "snd (Encode_all mb pdus) = mb\<lparr>serial := serial mb + of_nat (length pdus)\<rparr>"
proof (induction pdus arbitrary: mb)
  case Nil
  show ?case by simp
next
  case (Cons pdu pdus)
  have "snd (Encode_all mb (pdu # pdus)) = snd (Encode_all (snd (Encode mb pdu)) pdus)"
    by (simp add: split_beta)
  then show ?case by (simp add: Cons.IH Encode_state add.assoc add.commute)
qed

lemma Encode_all_nth:
  "k < length pdus \<Longrightarrow> fst (Encode_all mb pdus) ! k ! 5 = serial mb + of_nat (k + 1)"
proof (induction pdus arbitrary: mb k)
  case Nil
  then show ?case by simp
next
  case (Cons pdu pdus)
  have unfold: "fst (Encode_all mb (pdu # pdus)) = fst (Encode mb pdu) # fst (Encode_all (snd (Encode mb pdu)) pdus)"
    by (simp add: split_beta)
  show ?case
  proof (cases k)
    case 0
    then show ?thesis by (simp add: unfold Encode_sequence_byte del: Encode_all.simps)
  next
    case (Suc j)
    with Cons.prems have "j < length pdus" by simp
    then show ?thesis
      using Cons.IH [of j "snd (Encode mb pdu)"] Suc
      by (simp add: unfold Encode_state add.assoc del: Encode_all.simps)
  qed
qed

lemma unat_byte_add_of_nat: "unat ((a :: byte) + of_nat n) = (unat a + n) mod 256"
  by (simp add: unat_word_ariths unat_of_nat mod_simps)

text \<open>
  C7. The sequence counter is one byte, incremented before each frame and wrapping
  modulo 256: in consecutive \<open>Encode\<close> calls starting from the counter value \<open>c\<close>, the
  byte at offset 5 of the frame of call number \<open>k + 1\<close> is \<open>(c + k + 1) mod 256\<close>, and
  the calls change nothing of the packager but the counter.
\<close>

theorem Encode_sequence_counter:
  "k < length pdus \<Longrightarrow>
     fst (Encode_all mb pdus) ! k ! 5 = serial mb + of_nat (k + 1)
   \<and> unat (fst (Encode_all mb pdus) ! k ! 5) = (unat (serial mb) + (k + 1)) mod 256
   \<and> snd (Encode_all mb pdus) = mb\<lparr>serial := serial mb + of_nat (length pdus)\<rparr>"
  by (simp only: Encode_all_nth Encode_all_state unat_byte_add_of_nat)

text \<open>Two calls from the counter value 255: the second frame carries 1.\<close>

theorem Encode_sequence_counter_witness:
  "(1 :: nat) < length [\<lparr>FunctionCode = 0x03, Data = [0x00, 0x01, 0x00, 0x02]\<rparr>,
                        \<lparr>FunctionCode = 0x04, Data = []\<rparr>]
   \<and> fst (Encode_all \<lparr>SlaveID = 0x01, LoggerSerial = 0x12345678, serial = 0xFF\<rparr>
          [\<lparr>FunctionCode = 0x03, Data = [0x00, 0x01, 0x00, 0x02]\<rparr>,
           \<lparr>FunctionCode = 0x04, Data = []\<rparr>]) ! 1 ! 5 = 0x01
   \<and> snd (Encode_all \<lparr>SlaveID = 0x01, LoggerSerial = 0x12345678, serial = 0xFF\<rparr>
          [\<lparr>FunctionCode = 0x03, Data = [0x00, 0x01, 0x00, 0x02]\<rparr>,
           \<lparr>FunctionCode = 0x04, Data = []\<rparr>])
       = \<lparr>SlaveID = 0x01, LoggerSerial = 0x12345678, serial = 0x01\<rparr>"
  using Encode_sequence_counter [of 1 "[\<lparr>FunctionCode = 0x03, Data = [0x00, 0x01, 0x00, 0x02]\<rparr>,
                        \<lparr>FunctionCode = 0x04, Data = []\<rparr>]" "\<lparr>SlaveID = 0x01, LoggerSerial = 0x12345678, serial = 0xFF\<rparr>"]
  by simp

section \<open>Verify\<close>

lemma Verify_response_too_short:
  "length aduResponse < 11 \<Longrightarrow>
   Verify mb aduRequest (Slice aduResponse rest) = Err (ResponseTooShort (length aduResponse))"
  by (simp add: Verify_def slice_len_Slice)

lemma Verify_bad_start:
  "11 \<le> length aduResponse \<Longrightarrow> aduResponse ! 0 \<noteq> StartByte \<Longrightarrow>
   Verify mb aduRequest (Slice aduResponse rest)
     = Err (InvalidResponseStartByte StartByte (aduResponse ! 0))"
  by (auto simp add: Verify_def slice_len_Slice index_def)

lemma Verify_bad_checksum:
  "11 \<le> length aduResponse \<Longrightarrow> aduResponse ! 0 = StartByte \<Longrightarrow> \<not> checksum_ok aduResponse \<Longrightarrow>
   Verify mb aduRequest (Slice aduResponse rest) =
     Err (ResponseChecksumMismatch (CheckSum (take (length aduResponse - 3) (drop 1 aduResponse)))
            (aduResponse ! (length aduResponse - 2)))"
  by (auto simp add: Verify_def slice_len_Slice index_def go_slice_within checksum_ok_def)

text \<open>What is left of \<open>Verify\<close> once the three checks of the response have passed: the
  slices of the response are within its length, those of the request are not checked.\<close>

lemma Verify_after_response_checks:
  assumes "11 \<le> length aduResponse" "aduResponse ! 0 = StartByte" "checksum_ok aduResponse"
  shows "Verify mb aduRequest (Slice aduResponse rest) = do {
            requestSequence \<leftarrow> go_slice aduRequest 5 6;
            if elems requestSequence \<noteq> [aduResponse ! 5]
            then do {
              shownRequest \<leftarrow> BigEndian_Uint16 (elems requestSequence);
              shownResponse \<leftarrow> BigEndian_Uint16 [aduResponse ! 5];
              Err (SequenceNumberMismatch shownRequest shownResponse)
            }
            else do {
              requestControlCode \<leftarrow> go_slice aduRequest 3 5 \<bind> (\<lambda>b. LittleEndian_Uint16 (elems b));
              if u16_at aduResponse 3 \<noteq> requestControlCode - 0x3000
              then Err (ControlCodeMismatch (requestControlCode - 0x3000) (u16_at aduResponse 3))
              else do {
                requestLoggerSerial \<leftarrow> go_slice aduRequest 7 11;
                if elems requestLoggerSerial \<noteq> take 4 (drop 7 aduResponse)
                then Err (LoggerSerialNumberMismatch (elems requestLoggerSerial)
                           (take 4 (drop 7 aduResponse)))
                else Ok ()
              }
            }
          }"
proof -
  have a: "go_slice (Slice aduResponse rest) 5 6
      = Some (Slice [aduResponse ! 5] (drop 6 aduResponse @ rest))"
    using assms(1) by (simp add: go_slice_within take_Suc_conv_app_nth)
  have b: "go_slice (Slice aduResponse rest) 3 5 \<bind> (\<lambda>b. LittleEndian_Uint16 (elems b))
      = Some (u16_at aduResponse 3)"
    using assms(1) by (simp add: go_slice_within LittleEndian_Uint16_nth u16_at_take u16_at_drop)
  have c: "go_slice (Slice aduResponse rest) 7 11
      = Some (Slice (take 4 (drop 7 aduResponse)) (drop 11 aduResponse @ rest))"
    using assms(1) by (simp add: go_slice_within)
  have d: "go_slice (Slice aduResponse rest) (Suc 0) (length aduResponse - 2)
      = Some (Slice (take (length aduResponse - 3) (drop 1 aduResponse))
                (drop (length aduResponse - 2) aduResponse @ rest))"
    using assms(1) by (auto simp add: go_slice_within)
  have e: "index aduResponse 0 = Some StartByte"
    "index aduResponse (length aduResponse - 2) = Some (aduResponse ! (length aduResponse - 2))"
    using assms(1,2) by (auto simp add: index_def)
  show ?thesis
    using assms
    by (simp add: Verify_def slice_len_Slice a b c d e checksum_ok_def Let_def cong: if_cong)
qed

lemma BigEndian_Uint16_one_byte: "BigEndian_Uint16 [b] = None"
  by (simp add: BigEndian_Uint16_def index_def)

text \<open>The three slices of the request, which Go checks against its capacity.\<close>

lemma request_5_6:
  "go_slice s 5 6
     = (if 6 \<le> slice_cap s then Some (Slice [backing s ! 5] (drop 6 (backing s))) else None)"
  by (simp add: go_slice_def slice_cap_def take_Suc_conv_app_nth)

lemma request_3_5:
  "5 \<le> slice_cap s \<Longrightarrow>
   go_slice s 3 5 \<bind> (\<lambda>b. LittleEndian_Uint16 (elems b)) = Some (u16_at (backing s) 3)"
  by (simp add: go_slice_def slice_cap_def LittleEndian_Uint16_nth u16_at_take u16_at_drop)

lemma request_7_11:
  "go_slice s 7 11
     = (if 11 \<le> slice_cap s
        then Some (Slice (take 4 (drop 7 (backing s))) (drop 11 (backing s))) else None)"
  by (simp add: go_slice_def)

lemma Verify_request_below_6:
  assumes "11 \<le> length aduResponse" "aduResponse ! 0 = StartByte" "checksum_ok aduResponse"
    "slice_cap aduRequest < 6"
  shows "Verify mb aduRequest (Slice aduResponse rest) = Panic"
  using assms(4) by (simp add: Verify_after_response_checks [OF assms(1-3)] request_5_6)

lemma Verify_unequal_sequence:
  assumes "11 \<le> length aduResponse" "aduResponse ! 0 = StartByte" "checksum_ok aduResponse"
    "6 \<le> slice_cap aduRequest" "backing aduRequest ! 5 \<noteq> aduResponse ! 5"
  shows "Verify mb aduRequest (Slice aduResponse rest) = Panic"
  using assms(4,5)
  by (simp add: Verify_after_response_checks [OF assms(1-3)] request_5_6 BigEndian_Uint16_one_byte)

lemma Verify_control_code_mismatch:
  assumes "11 \<le> length aduResponse" "aduResponse ! 0 = StartByte" "checksum_ok aduResponse"
    "6 \<le> slice_cap aduRequest" "backing aduRequest ! 5 = aduResponse ! 5"
    "u16_at aduResponse 3 \<noteq> u16_at (backing aduRequest) 3 - 0x3000"
  shows "Verify mb aduRequest (Slice aduResponse rest)
         = Err (ControlCodeMismatch (u16_at (backing aduRequest) 3 - 0x3000) (u16_at aduResponse 3))"
proof -
  have "go_slice aduRequest 3 5 \<bind> (\<lambda>b. LittleEndian_Uint16 (elems b))
      = Some (u16_at (backing aduRequest) 3)"
    using assms(4) by (simp add: request_3_5)
  then show ?thesis
    using assms(4-6) by (simp add: Verify_after_response_checks [OF assms(1-3)] request_5_6)
qed

lemma Verify_request_without_serial:
  assumes "11 \<le> length aduResponse" "aduResponse ! 0 = StartByte" "checksum_ok aduResponse"
    "6 \<le> slice_cap aduRequest" "backing aduRequest ! 5 = aduResponse ! 5"
    "u16_at aduResponse 3 = u16_at (backing aduRequest) 3 - 0x3000" "slice_cap aduRequest < 11"
  shows "Verify mb aduRequest (Slice aduResponse rest) = Panic"
proof -
  have "go_slice aduRequest 3 5 \<bind> (\<lambda>b. LittleEndian_Uint16 (elems b))
      = Some (u16_at (backing aduRequest) 3)"
    using assms(4) by (simp add: request_3_5)
  then show ?thesis
    using assms(4-7)
    by (simp add: Verify_after_response_checks [OF assms(1-3)] request_5_6 request_7_11)
qed

lemma Verify_full_request:
  assumes "11 \<le> length aduResponse" "aduResponse ! 0 = StartByte" "checksum_ok aduResponse"
    "11 \<le> slice_cap aduRequest" "backing aduRequest ! 5 = aduResponse ! 5"
    "u16_at aduResponse 3 = u16_at (backing aduRequest) 3 - 0x3000"
  shows "Verify mb aduRequest (Slice aduResponse rest)
         = (if take 4 (drop 7 (backing aduRequest)) \<noteq> take 4 (drop 7 aduResponse)
            then Err (LoggerSerialNumberMismatch (take 4 (drop 7 (backing aduRequest)))
                       (take 4 (drop 7 aduResponse)))
            else Ok ())"
proof -
  have "go_slice aduRequest 3 5 \<bind> (\<lambda>b. LittleEndian_Uint16 (elems b))
      = Some (u16_at (backing aduRequest) 3)"
    using assms(4) by (simp add: request_3_5)
  then show ?thesis
    using assms(4-6)
    by (simp add: Verify_after_response_checks [OF assms(1-3)] request_5_6 request_7_11)
qed

text \<open>With a response that passes its three checks, \<open>Verify\<close> succeeds exactly when the
  request has a capacity of 11 or more and the sequence byte, the control code and the
  serial bytes agree. On a request of 11 bytes or more the bytes compared are its own;
  on a shorter one with spare capacity they are the bytes of the array behind it.\<close>

lemma Verify_succeeds_iff:
  assumes "11 \<le> length aduResponse" "aduResponse ! 0 = StartByte" "checksum_ok aduResponse"
  shows "Verify mb aduRequest (Slice aduResponse rest) = Ok () \<longleftrightarrow>
     11 \<le> slice_cap aduRequest
     \<and> backing aduRequest ! 5 = aduResponse ! 5
     \<and> u16_at aduResponse 3 = u16_at (backing aduRequest) 3 - 0x3000
     \<and> take 4 (drop 7 (backing aduRequest)) = take 4 (drop 7 aduResponse)"
proof (cases "slice_cap aduRequest < 6")
  case True
  then show ?thesis by (simp add: Verify_request_below_6 [OF assms])
next
  case False
  then have l6: "6 \<le> slice_cap aduRequest" by simp
  show ?thesis
  proof (cases "backing aduRequest ! 5 = aduResponse ! 5")
    case False
    then show ?thesis by (simp add: Verify_unequal_sequence [OF assms l6])
  next
    case s: True
    show ?thesis
    proof (cases "u16_at aduResponse 3 = u16_at (backing aduRequest) 3 - 0x3000")
      case False
      then show ?thesis using s by (simp add: Verify_control_code_mismatch [OF assms l6 s])
    next
      case cc: True
      show ?thesis
      proof (cases "slice_cap aduRequest < 11")
        case True
        then show ?thesis by (simp add: Verify_request_without_serial [OF assms l6 s cc True])
      next
        case False
        then have l11: "11 \<le> slice_cap aduRequest" by simp
        show ?thesis using s cc l11 by (simp add: Verify_full_request [OF assms l11 s cc])
      qed
    qed
  qed
qed

text \<open>A request of 3 bytes cut from an array of 11 is accepted: the slice expressions
  reach into the spare bytes.\<close>

lemma Verify_reads_spare_bytes:
  "Verify \<lparr>SlaveID = 0x01, LoggerSerial = 0xA56DAD4F, serial = 0x01\<rparr>
     (Slice [0xA5, 0x0E, 0x00] [0x10, 0x45, 0x01, 0x00, 0x4F, 0xAD, 0x6D, 0xA5])
     (Slice [0xA5, 0x0E, 0x00, 0x10, 0x15, 0x01, 0x00, 0x4F, 0xAD, 0x6D, 0xA5, 0x42, 0x15] [])
   = Ok ()"
  by code_simp

text \<open>
  C6. \<open>Verify\<close> is meant to succeed exactly when the sequence bytes at offset 5, the
  control codes (the response's being the request's minus 0x3000) and the serial bytes at
  offsets 7 to 10 agree, and to report each of the three mismatches with an error of its
  own. The code misses this on a sequence mismatch: to print the two bytes it calls
  \<open>binary.BigEndian.Uint16\<close> on the one-byte slices \<open>aduRequest[5:6]\<close> and
  \<open>aduResponse[5:6]\<close>, which indexes \<open>b[1]\<close> and panics before the error is built.
  On the request of the test and its response with sequence byte 2 (checksum adjusted),
  \<open>Verify\<close> panics.
\<close>

theorem Verify_sequence_mismatch_panics:
  "Verify \<lparr>SlaveID = 0x01, LoggerSerial = 0xA56DAD4F, serial = 0x01\<rparr>
     (Slice [0xA5, 0x0E, 0x00, 0x10, 0x45, 0x01, 0x00, 0x4F, 0xAD, 0x6D, 0xA5] [])
     (Slice [0xA5, 0x0E, 0x00, 0x10, 0x15, 0x02, 0x00, 0x4F, 0xAD, 0x6D, 0xA5, 0x43, 0x15] [])
   = Panic"
  by code_simp

text \<open>
  C10. \<open>Verify\<close> checks the length of the response only; the slice expressions on the
  request are bounded by nothing but its capacity. With a response that passes the
  length, start-byte and checksum checks, a request whose capacity (and so its length)
  is below 6 panics at \<open>aduRequest[5:6]\<close>; one whose capacity is 6 to 10 and whose
  sequence byte and control code match panics at \<open>aduRequest[7:11]\<close>; and no request
  whose capacity is below 11 is accepted.
\<close>

theorem Verify_short_request_panics:
  assumes "slice_cap aduRequest < 11" and "11 \<le> length aduResponse"
    and "aduResponse ! 0 = StartByte" and "checksum_ok aduResponse"
  shows "(slice_cap aduRequest < 6 \<longrightarrow> Verify mb aduRequest (Slice aduResponse rest) = Panic)
     \<and> (6 \<le> slice_cap aduRequest \<and> backing aduRequest ! 5 = aduResponse ! 5
          \<and> u16_at aduResponse 3 = u16_at (backing aduRequest) 3 - 0x3000 \<longrightarrow>
        Verify mb aduRequest (Slice aduResponse rest) = Panic)
     \<and> Verify mb aduRequest (Slice aduResponse rest) \<noteq> Ok ()"
proof (intro conjI impI)
  show "Verify mb aduRequest (Slice aduResponse rest) = Panic" if "slice_cap aduRequest < 6"
    using that by (rule Verify_request_below_6 [OF assms(2-4)])
  show "Verify mb aduRequest (Slice aduResponse rest) = Panic"
    if "6 \<le> slice_cap aduRequest \<and> backing aduRequest ! 5 = aduResponse ! 5
          \<and> u16_at aduResponse 3 = u16_at (backing aduRequest) 3 - 0x3000"
    using that assms(1) Verify_request_without_serial [OF assms(2-4)] by blast
  show "Verify mb aduRequest (Slice aduResponse rest) \<noteq> Ok ()"
    using assms(1) by (simp add: Verify_succeeds_iff [OF assms(2-4)])
qed

text \<open>An empty request without spare capacity, which panics at \<open>aduRequest[5:6]\<close>, and
  the first seven bytes of the request of the test, again without spare capacity, which
  panic at \<open>aduRequest[7:11]\<close>, both with the response of the test.\<close>

theorem Verify_short_request_panics_witness:
  "Verify \<lparr>SlaveID = 0x01, LoggerSerial = 0xA56DAD4F, serial = 0x01\<rparr> (Slice [] [])
     (Slice [0xA5, 0x0E, 0x00, 0x10, 0x15, 0x01, 0x00, 0x4F, 0xAD, 0x6D, 0xA5, 0x42, 0x15] [])
     = Panic
   \<and> Verify \<lparr>SlaveID = 0x01, LoggerSerial = 0xA56DAD4F, serial = 0x01\<rparr>
        (Slice [0xA5, 0x0E, 0x00, 0x10, 0x45, 0x01, 0x00] [])
        (Slice [0xA5, 0x0E, 0x00, 0x10, 0x15, 0x01, 0x00, 0x4F, 0xAD, 0x6D, 0xA5, 0x42, 0x15] [])
     = Panic"
proof
  let ?mb = "\<lparr>SlaveID = 0x01, LoggerSerial = 0xA56DAD4F, serial = 0x01\<rparr>"
  let ?resp = "[0xA5, 0x0E, 0x00, 0x10, 0x15, 0x01, 0x00, 0x4F, 0xAD, 0x6D, 0xA5, 0x42, 0x15] :: byte list"
  have len: "11 \<le> length ?resp" by simp
  have start: "?resp ! 0 = StartByte" by (simp add: StartByte_def)
  have sum: "checksum_ok ?resp" by code_simp
  let ?none = "Slice [] [] :: byte slice"
  have short: "slice_cap ?none < 11" by (simp add: slice_cap_def backing_def)
  have "slice_cap ?none < 6" by (simp add: slice_cap_def backing_def)
  from Verify_short_request_panics [OF short len start sum, of ?mb "[]", THEN conjunct1, THEN mp,
      OF this]
  show "Verify ?mb ?none (Slice ?resp []) = Panic" .
  let ?req = "Slice [0xA5, 0x0E, 0x00, 0x10, 0x45, 0x01, 0x00] [] :: byte slice"
  have short: "slice_cap ?req < 11" by (simp add: slice_cap_def backing_def)
  have "6 \<le> slice_cap ?req \<and> backing ?req ! 5 = ?resp ! 5
        \<and> u16_at ?resp 3 = u16_at (backing ?req) 3 - 0x3000"
    by code_simp
  from Verify_short_request_panics [OF short len start sum, of ?mb "[]", THEN conjunct2,
      THEN conjunct1, THEN mp, OF this]
  show "Verify ?mb ?req (Slice ?resp []) = Panic" .
qed

section \<open>Send\<close>

lemma connect_connected: "conn mb = Some c \<Longrightarrow> connect net mb = (None, mb)"
  by (simp add: connect_def)

lemma reconnect_connected:
  "conn mb = Some c \<Longrightarrow>
   reconnect net mb =
     (net_Dial net (dials mb),
      mb\<lparr>conn := (case net_Dial net (dials mb) of None \<Rightarrow> Some (dials mb) | Some e \<Rightarrow> None),
         dials := dials mb + 1, trace := trace mb @ [Closed c, Dialed]\<rparr>)"
  by (simp add: reconnect_def connect_def Let_def split: option.splits)

lemma mb_write_connected:
  "conn mb = Some c \<Longrightarrow>
   mb_write net mb request =
     Some (write_error net (writes mb) request,
           mb\<lparr>writes := writes mb + 1, trace := trace mb @ [Wrote c request]\<rparr>)"
  by (simp add: mb_write_def write_error_def Let_def split: prod.splits option.splits)

lemma mb_read_connected:
  "conn mb = Some c \<Longrightarrow>
   mb_read net mb =
     Some ((read_bytes net (reads mb), read_error net (reads mb)),
           mb\<lparr>reads := reads mb + 1, trace := trace mb @ [ReadFrom c]\<rparr>)"
  by (simp add: mb_read_def read_error_def read_bytes_def Let_def split: prod.splits)

lemma Send_read_no_epipe:
  assumes "conn mb = Some c" "\<not> errors_Is_EPIPE (read_error net (reads mb))"
  shows "Send_read net mb request =
     Some ((read_bytes net (reads mb), map_option Unwrapped (read_error net (reads mb))),
           mb\<lparr>reads := reads mb + 1, trace := trace mb @ [ReadFrom c]\<rparr>)"
  using assms by (simp add: Send_read_def mb_read_connected)

lemma Send_read_reconnect_fails:
  assumes "conn mb = Some c" "errors_Is_EPIPE (read_error net (reads mb))"
    "net_Dial net (dials mb) = Some e"
  shows "Send_read net mb request =
     Some (([], Some (FailedToReconnect e)),
           mb\<lparr>conn := None, dials := dials mb + 1, reads := reads mb + 1,
              trace := trace mb @ [ReadFrom c, Closed c, Dialed]\<rparr>)"
  using assms by (simp add: Send_read_def mb_read_connected reconnect_connected)

lemma Send_read_rewrite_fails:
  assumes "conn mb = Some c" "errors_Is_EPIPE (read_error net (reads mb))"
    "net_Dial net (dials mb) = None" "write_error net (writes mb) request = Some e"
  shows "Send_read net mb request =
     Some (([], Some (FailedToWrite e)),
           mb\<lparr>conn := Some (dials mb), dials := dials mb + 1, writes := writes mb + 1,
              reads := reads mb + 1,
              trace := trace mb @ [ReadFrom c, Closed c, Dialed, Wrote (dials mb) request]\<rparr>)"
  using assms by (simp add: Send_read_def mb_read_connected reconnect_connected mb_write_connected)

lemma Send_read_reread:
  assumes "conn mb = Some c" "errors_Is_EPIPE (read_error net (reads mb))"
    "net_Dial net (dials mb) = None" "write_error net (writes mb) request = None"
  shows "Send_read net mb request =
     Some ((case read_error net (reads mb + 1) of
              Some e \<Rightarrow> ([], Some (FailedToRead e))
            | None \<Rightarrow> (read_bytes net (reads mb + 1), None)),
           mb\<lparr>conn := Some (dials mb), dials := dials mb + 1, writes := writes mb + 1,
              reads := reads mb + 2,
              trace := trace mb @ [ReadFrom c, Closed c, Dialed, Wrote (dials mb) request,
                                   ReadFrom (dials mb)]\<rparr>)"
  using assms
  by (simp add: Send_read_def mb_read_connected reconnect_connected mb_write_connected
      split: option.splits)

lemma recoveriesI:
  "f = Some (res, mb') \<Longrightarrow> trace mb' = trace mb @ evs \<Longrightarrow> length (filter is_Closed evs) = n \<Longrightarrow>
   \<exists>res mb' evs. f = Some (res, mb') \<and> trace mb' = trace mb @ evs
      \<and> length (filter is_Closed evs) = n"
  by blast

lemma Send_read_recoveries:
  assumes "conn mb = Some c"
  shows "\<exists>res mb' evs. Send_read net mb request = Some (res, mb')
           \<and> trace mb' = trace mb @ evs
           \<and> length (filter is_Closed evs)
               = (if errors_Is_EPIPE (read_error net (reads mb)) then 1 else 0)"
proof (cases "errors_Is_EPIPE (read_error net (reads mb))")
  case False
  show ?thesis
    by (rule recoveriesI [where evs = "[ReadFrom c]", OF Send_read_no_epipe [OF assms False]])
       (simp_all add: False)
next
  case epipe: True
  show ?thesis
  proof (cases "net_Dial net (dials mb)")
    case (Some e)
    show ?thesis
      by (rule recoveriesI [where evs = "[ReadFrom c, Closed c, Dialed]",
            OF Send_read_reconnect_fails [OF assms epipe Some]])
         (simp_all add: epipe)
  next
    case dial: None
    show ?thesis
    proof (cases "write_error net (writes mb) request")
      case (Some e)
      show ?thesis
        by (rule recoveriesI [where evs = "[ReadFrom c, Closed c, Dialed, Wrote (dials mb) request]",
              OF Send_read_rewrite_fails [OF assms epipe dial Some]])
           (simp_all add: epipe)
    next
      case None
      show ?thesis
        by (rule recoveriesI [where evs = "[ReadFrom c, Closed c, Dialed, Wrote (dials mb) request,
                ReadFrom (dials mb)]",
              OF Send_read_reread [OF assms epipe dial None]])
           (simp_all add: epipe)
    qed
  qed
qed

lemma Send_write_no_epipe:
  assumes "conn mb = Some c" "\<not> errors_Is_EPIPE (write_error net (writes mb) request)"
  shows "Send net mb request =
     Send_read net (mb\<lparr>writes := writes mb + 1, trace := trace mb @ [Wrote c request]\<rparr>) request"
  using assms by (simp add: Send_def connect_connected mb_write_connected)

lemma Send_reconnect_fails:
  assumes "conn mb = Some c" "errors_Is_EPIPE (write_error net (writes mb) request)"
    "net_Dial net (dials mb) = Some e"
  shows "Send net mb request =
     Some (([], Some (FailedToReconnect e)),
           mb\<lparr>conn := None, dials := dials mb + 1, writes := writes mb + 1,
              trace := trace mb @ [Wrote c request, Closed c, Dialed]\<rparr>)"
  using assms by (simp add: Send_def connect_connected mb_write_connected reconnect_connected)

lemma Send_rewrite_fails:
  assumes "conn mb = Some c" "errors_Is_EPIPE (write_error net (writes mb) request)"
    "net_Dial net (dials mb) = None" "write_error net (writes mb + 1) request = Some e"
  shows "Send net mb request =
     Some (([], Some (FailedToWrite e)),
           mb\<lparr>conn := Some (dials mb), dials := dials mb + 1, writes := writes mb + 2,
              trace := trace mb @ [Wrote c request, Closed c, Dialed, Wrote (dials mb) request]\<rparr>)"
  using assms by (simp add: Send_def connect_connected mb_write_connected reconnect_connected)

lemma Send_rewrite_succeeds:
  assumes "conn mb = Some c" "errors_Is_EPIPE (write_error net (writes mb) request)"
    "net_Dial net (dials mb) = None" "write_error net (writes mb + 1) request = None"
  shows "Send net mb request =
     Send_read net
       (mb\<lparr>conn := Some (dials mb), dials := dials mb + 1, writes := writes mb + 2,
           trace := trace mb @ [Wrote c request, Closed c, Dialed, Wrote (dials mb) request]\<rparr>)
       request"
  using assms by (simp add: Send_def connect_connected mb_write_connected reconnect_connected)

lemma Send_reaches_read:
  assumes "conn mb = Some c" "reaches_read net mb request"
  shows "Send net mb request =
     Send_read net
       (mb\<lparr>conn := Some (socket_at_read net mb c request),
           dials := dials_at_read net mb request,
           writes := writes_at_read net mb request,
           trace := trace mb @ events_before_read net mb c request\<rparr>)
       request"
proof (cases "errors_Is_EPIPE (write_error net (writes mb) request)")
  case True
  with assms(2) have "net_Dial net (dials mb) = None"
    and "write_error net (writes mb + 1) request = None"
    by (simp_all add: reaches_read_def)
  from Send_rewrite_succeeds [OF assms(1) True this] True show ?thesis
    by (simp add: socket_at_read_def dials_at_read_def writes_at_read_def
        events_before_read_def)
next
  case False
  have "mb\<lparr>writes := writes mb + 1, trace := trace mb @ [Wrote c request]\<rparr>
      = mb\<lparr>conn := Some c, dials := dials mb, writes := writes mb + 1,
            trace := trace mb @ [Wrote c request]\<rparr>"
    using assms(1) by (cases mb) simp
  with Send_write_no_epipe [OF assms(1) False] False show ?thesis
    by (simp add: socket_at_read_def dials_at_read_def writes_at_read_def
        events_before_read_def)
qed

lemma Send_recoveries:
  assumes "conn mb = Some c"
  shows "\<exists>res mb'. Send net mb request = Some (res, mb')
           \<and> length (filter is_Closed (new_events mb mb'))
               = (if errors_Is_EPIPE (write_error net (writes mb) request) then 1 else 0)
                 + (if reaches_read net mb request
                       \<and> errors_Is_EPIPE (read_error net (reads mb)) then 1 else 0)"
proof (cases "errors_Is_EPIPE (write_error net (writes mb) request)")
  case False
  let ?mb1 = "mb\<lparr>writes := writes mb + 1, trace := trace mb @ [Wrote c request]\<rparr>"
  have c1: "conn ?mb1 = Some c" using assms by simp
  from Send_read_recoveries [OF c1, of net request]
  obtain res mb' evs where r: "Send_read net ?mb1 request = Some (res, mb')"
    and t: "trace mb' = trace ?mb1 @ evs"
    and n: "length (filter is_Closed evs)
               = (if errors_Is_EPIPE (read_error net (reads ?mb1)) then 1 else 0)"
    by blast
  have "new_events mb mb' = Wrote c request # evs"
    using t by (simp add: new_events_def)
  then show ?thesis
    using False r n by (simp add: Send_write_no_epipe [OF assms False] reaches_read_def)
next
  case epipe: True
  show ?thesis
  proof (cases "net_Dial net (dials mb)")
    case (Some e)
    then show ?thesis
      using epipe by (simp add: Send_reconnect_fails [OF assms] new_events_def reaches_read_def)
  next
    case dial: None
    show ?thesis
    proof (cases "write_error net (writes mb + 1) request")
      case (Some e)
      then show ?thesis
        using epipe dial
        by (simp add: Send_rewrite_fails [OF assms] new_events_def reaches_read_def)
    next
      case None
      let ?mb4 = "mb\<lparr>conn := Some (dials mb), dials := dials mb + 1, writes := writes mb + 2,
           trace := trace mb @ [Wrote c request, Closed c, Dialed, Wrote (dials mb) request]\<rparr>"
      have c4: "conn ?mb4 = Some (dials mb)" by simp
      from Send_read_recoveries [OF c4, of net request]
      obtain res mb' evs where r: "Send_read net ?mb4 request = Some (res, mb')"
        and t: "trace mb' = trace ?mb4 @ evs"
        and n: "length (filter is_Closed evs)
               = (if errors_Is_EPIPE (read_error net (reads ?mb4)) then 1 else 0)"
        by blast
      have "new_events mb mb'
          = [Wrote c request, Closed c, Dialed, Wrote (dials mb) request] @ evs"
        using t by (simp add: new_events_def)
      then show ?thesis
        using epipe dial None r n
        by (simp add: Send_rewrite_succeeds [OF assms epipe dial None] reaches_read_def)
    qed
  qed
qed

lemma connect_gives_socket: "connect net mb = (None, mb1) \<Longrightarrow> conn mb1 \<noteq> None"
  by (auto simp add: connect_def Let_def split: if_splits option.splits)

lemma Send_after_connect:
  assumes "connect net mb = (None, mb1)"
  shows "Send net mb request = Send net mb1 request"
proof -
  from connect_gives_socket [OF assms] obtain c where "conn mb1 = Some c" by auto
  then have "connect net mb1 = (None, mb1)" by (rule connect_connected)
  then show ?thesis using assms by (simp add: Send_def)
qed

lemma Send_write_error_dropped:
  assumes "conn mb = Some c" "write_error net (writes mb) request = Some e"
    "\<not> errors_Is_EPIPE (Some e)" "read_error net (reads mb) = None"
  shows "Send net mb request =
     Some ((read_bytes net (reads mb), None),
           mb\<lparr>writes := writes mb + 1, reads := reads mb + 1,
              trace := trace mb @ [Wrote c request, ReadFrom c]\<rparr>)"
proof -
  let ?mb1 = "mb\<lparr>writes := writes mb + 1, trace := trace mb @ [Wrote c request]\<rparr>"
  have "Send net mb request = Send_read net ?mb1 request"
    using assms by (simp add: Send_write_no_epipe)
  also have "\<dots> = Some ((read_bytes net (reads ?mb1), map_option Unwrapped (read_error net (reads ?mb1))),
           ?mb1\<lparr>reads := reads ?mb1 + 1, trace := trace ?mb1 @ [ReadFrom c]\<rparr>)"
    using assms by (intro Send_read_no_epipe) simp_all
  finally show ?thesis using assms(4) by simp
qed

text \<open>
  C2. A write failure that is not a broken pipe should end \<open>Send\<close> and be returned.
  The code does not do so: after \<open>err = mb.write(aduRequest)\<close> only the broken-pipe
  case is looked at, and \<open>aduResponse, err = mb.read()\<close> then overwrites \<open>err\<close>. On a
  connected socket whose write fails with errno 104 (connection reset) and whose read
  then delivers 13 bytes, \<open>Send\<close> returns those bytes and a nil error.
\<close>

theorem Send_swallows_write_error:
  "Send \<lparr>net_Dial = (\<lambda>k. None),
         net_Write = (\<lambda>k request. (0, Some (Errno 104))),
         net_Read = (\<lambda>k. ([0xA5, 0x0E, 0x00, 0x10, 0x15, 0x01, 0x00, 0x4F, 0xAD, 0x6D, 0xA5, 0x00, 0x15], None))\<rparr>
        \<lparr>conn = Some 0, dials = 1, writes = 0, reads = 0, trace = []\<rparr>
        [0xA5, 0x0E, 0x00, 0x10, 0x45, 0x01, 0x00, 0x4F, 0xAD, 0x6D, 0xA5]
   = Some (([0xA5, 0x0E, 0x00, 0x10, 0x15, 0x01, 0x00, 0x4F, 0xAD, 0x6D, 0xA5, 0x00, 0x15], None),
           \<lparr>conn = Some 0, dials = 1, writes = 1, reads = 1,
            trace = [Wrote 0 [0xA5, 0x0E, 0x00, 0x10, 0x45, 0x01, 0x00, 0x4F, 0xAD, 0x6D, 0xA5],
                     ReadFrom 0]\<rparr>)"
  by code_simp

text \<open>
  C3. Once \<open>Send\<close> holds a socket (the one it had, or the one its first step dialled;
  \<open>mb1\<close> is the transporter at that point and \<open>c\<close> its socket), a broken pipe on
  the write starts exactly one recovery: the socket is closed, a new one is dialled and
  the request is written again. If the dial or the retried write fails (with a broken
  pipe or anything else), that failure is returned and nothing more is tried; if they
  succeed, \<open>Send\<close> goes on to the read. A broken pipe on the read, whether or not the
  write was recovered before, starts exactly one recovery too: close, dial, write again,
  read again. If the dial, the write or the second read fails, that failure is returned
  and nothing more is tried; if they succeed the bytes of the second read are returned.
  Without a broken pipe on the read there is no recovery of the read. In every run \<open>Send\<close>
  returns, and the number of sockets it closes is the number of the two steps that met a
  broken pipe.
\<close>

theorem Send_one_recovery_per_step:
  assumes "connect net mb = (None, mb1)" and "conn mb1 = Some c"
  shows
  "(errors_Is_EPIPE (write_error net (writes mb1) request) \<and> net_Dial net (dials mb1) = Some e \<longrightarrow>
      (\<exists>mb'. Send net mb request = Some (([], Some (FailedToReconnect e)), mb')
         \<and> new_events mb1 mb' = [Wrote c request, Closed c, Dialed]))
   \<and> (errors_Is_EPIPE (write_error net (writes mb1) request) \<and> net_Dial net (dials mb1) = None
        \<and> write_error net (writes mb1 + 1) request = Some e \<longrightarrow>
      (\<exists>mb'. Send net mb request = Some (([], Some (FailedToWrite e)), mb')
         \<and> new_events mb1 mb' = [Wrote c request, Closed c, Dialed, Wrote (dials mb1) request]))
   \<and> (reaches_read net mb1 request \<and> \<not> errors_Is_EPIPE (read_error net (reads mb1)) \<longrightarrow>
      (\<exists>mb'. Send net mb request
               = Some ((read_bytes net (reads mb1),
                        map_option Unwrapped (read_error net (reads mb1))), mb')
         \<and> new_events mb1 mb'
             = events_before_read net mb1 c request
               @ [ReadFrom (socket_at_read net mb1 c request)]))
   \<and> (reaches_read net mb1 request \<and> errors_Is_EPIPE (read_error net (reads mb1))
        \<and> net_Dial net (dials_at_read net mb1 request) = Some e \<longrightarrow>
      (\<exists>mb'. Send net mb request = Some (([], Some (FailedToReconnect e)), mb')
         \<and> new_events mb1 mb'
             = events_before_read net mb1 c request
               @ [ReadFrom (socket_at_read net mb1 c request),
                  Closed (socket_at_read net mb1 c request), Dialed]))
   \<and> (reaches_read net mb1 request \<and> errors_Is_EPIPE (read_error net (reads mb1))
        \<and> net_Dial net (dials_at_read net mb1 request) = None
        \<and> write_error net (writes_at_read net mb1 request) request = Some e \<longrightarrow>
      (\<exists>mb'. Send net mb request = Some (([], Some (FailedToWrite e)), mb')
         \<and> new_events mb1 mb'
             = events_before_read net mb1 c request
               @ [ReadFrom (socket_at_read net mb1 c request),
                  Closed (socket_at_read net mb1 c request), Dialed,
                  Wrote (dials_at_read net mb1 request) request]))
   \<and> (reaches_read net mb1 request \<and> errors_Is_EPIPE (read_error net (reads mb1))
        \<and> net_Dial net (dials_at_read net mb1 request) = None
        \<and> write_error net (writes_at_read net mb1 request) request = None
        \<and> read_error net (reads mb1 + 1) = Some e \<longrightarrow>
      (\<exists>mb'. Send net mb request = Some (([], Some (FailedToRead e)), mb')
         \<and> new_events mb1 mb'
             = events_before_read net mb1 c request
               @ [ReadFrom (socket_at_read net mb1 c request),
                  Closed (socket_at_read net mb1 c request), Dialed,
                  Wrote (dials_at_read net mb1 request) request,
                  ReadFrom (dials_at_read net mb1 request)]))
   \<and> (reaches_read net mb1 request \<and> errors_Is_EPIPE (read_error net (reads mb1))
        \<and> net_Dial net (dials_at_read net mb1 request) = None
        \<and> write_error net (writes_at_read net mb1 request) request = None
        \<and> read_error net (reads mb1 + 1) = None \<longrightarrow>
      (\<exists>mb'. Send net mb request = Some ((read_bytes net (reads mb1 + 1), None), mb')
         \<and> new_events mb1 mb'
             = events_before_read net mb1 c request
               @ [ReadFrom (socket_at_read net mb1 c request),
                  Closed (socket_at_read net mb1 c request), Dialed,
                  Wrote (dials_at_read net mb1 request) request,
                  ReadFrom (dials_at_read net mb1 request)]))
   \<and> (\<exists>res mb'. Send net mb request = Some (res, mb')
         \<and> length (filter is_Closed (new_events mb1 mb'))
             = (if errors_Is_EPIPE (write_error net (writes mb1) request) then 1 else 0)
               + (if reaches_read net mb1 request
                     \<and> errors_Is_EPIPE (read_error net (reads mb1)) then 1 else 0))"
proof -
  let ?c = "socket_at_read net mb1 c request"
  let ?pre = "events_before_read net mb1 c request"
  let ?mbR = "mb1\<lparr>conn := Some ?c, dials := dials_at_read net mb1 request,
                  writes := writes_at_read net mb1 request, trace := trace mb1 @ ?pre\<rparr>"
  have same: "Send net mb request = Send net mb1 request"
    by (rule Send_after_connect [OF assms(1)])
  have cR: "conn ?mbR = Some ?c" by simp
  have read: "reaches_read net mb1 request \<Longrightarrow> Send net mb1 request = Send_read net ?mbR request"
    by (rule Send_reaches_read [OF assms(2)])
  have p1: "errors_Is_EPIPE (write_error net (writes mb1) request) \<and> net_Dial net (dials mb1) = Some e \<longrightarrow>
      (\<exists>mb'. Send net mb1 request = Some (([], Some (FailedToReconnect e)), mb')
         \<and> new_events mb1 mb' = [Wrote c request, Closed c, Dialed])"
    by (simp add: Send_reconnect_fails [OF assms(2)] new_events_def)
  have p2: "errors_Is_EPIPE (write_error net (writes mb1) request) \<and> net_Dial net (dials mb1) = None
        \<and> write_error net (writes mb1 + 1) request = Some e \<longrightarrow>
      (\<exists>mb'. Send net mb1 request = Some (([], Some (FailedToWrite e)), mb')
         \<and> new_events mb1 mb' = [Wrote c request, Closed c, Dialed, Wrote (dials mb1) request])"
    by (simp add: Send_rewrite_fails [OF assms(2)] new_events_def)
  have p3: "reaches_read net mb1 request \<and> \<not> errors_Is_EPIPE (read_error net (reads mb1)) \<longrightarrow>
      (\<exists>mb'. Send net mb1 request
               = Some ((read_bytes net (reads mb1),
                        map_option Unwrapped (read_error net (reads mb1))), mb')
         \<and> new_events mb1 mb' = ?pre @ [ReadFrom ?c])"
    using Send_read_no_epipe [OF cR, of net request]
    by (auto simp add: read new_events_def)
  have p4: "reaches_read net mb1 request \<and> errors_Is_EPIPE (read_error net (reads mb1))
        \<and> net_Dial net (dials_at_read net mb1 request) = Some e \<longrightarrow>
      (\<exists>mb'. Send net mb1 request = Some (([], Some (FailedToReconnect e)), mb')
         \<and> new_events mb1 mb' = ?pre @ [ReadFrom ?c, Closed ?c, Dialed])"
    using Send_read_reconnect_fails [OF cR, of net e request]
    by (auto simp add: read new_events_def)
  have p5: "reaches_read net mb1 request \<and> errors_Is_EPIPE (read_error net (reads mb1))
        \<and> net_Dial net (dials_at_read net mb1 request) = None
        \<and> write_error net (writes_at_read net mb1 request) request = Some e \<longrightarrow>
      (\<exists>mb'. Send net mb1 request = Some (([], Some (FailedToWrite e)), mb')
         \<and> new_events mb1 mb'
             = ?pre @ [ReadFrom ?c, Closed ?c, Dialed,
                       Wrote (dials_at_read net mb1 request) request])"
    using Send_read_rewrite_fails [OF cR, of net request e]
    by (auto simp add: read new_events_def)
  have p6: "reaches_read net mb1 request \<and> errors_Is_EPIPE (read_error net (reads mb1))
        \<and> net_Dial net (dials_at_read net mb1 request) = None
        \<and> write_error net (writes_at_read net mb1 request) request = None
        \<and> read_error net (reads mb1 + 1) = Some e \<longrightarrow>
      (\<exists>mb'. Send net mb1 request = Some (([], Some (FailedToRead e)), mb')
         \<and> new_events mb1 mb'
             = ?pre @ [ReadFrom ?c, Closed ?c, Dialed,
                       Wrote (dials_at_read net mb1 request) request,
                       ReadFrom (dials_at_read net mb1 request)])"
    using Send_read_reread [OF cR, of net request]
    by (auto simp add: read new_events_def)
  have p7: "reaches_read net mb1 request \<and> errors_Is_EPIPE (read_error net (reads mb1))
        \<and> net_Dial net (dials_at_read net mb1 request) = None
        \<and> write_error net (writes_at_read net mb1 request) request = None
        \<and> read_error net (reads mb1 + 1) = None \<longrightarrow>
      (\<exists>mb'. Send net mb1 request = Some ((read_bytes net (reads mb1 + 1), None), mb')
         \<and> new_events mb1 mb'
             = ?pre @ [ReadFrom ?c, Closed ?c, Dialed,
                       Wrote (dials_at_read net mb1 request) request,
                       ReadFrom (dials_at_read net mb1 request)])"
    using Send_read_reread [OF cR, of net request]
    by (auto simp add: read new_events_def)
  show ?thesis
    unfolding same by (intro conjI p1 p2 p3 p4 p5 p6 p7 Send_recoveries [OF assms(2)])
qed

text \<open>A transporter without a socket, on a network whose every write fails with a
  broken pipe: after the first dial, one close, one dial, one retry, and the failure of
  the retry is returned. A connected transporter whose every read fails with a broken
  pipe: one close, one dial, one rewrite, one reread, and the failure of the reread is
  returned. A connected transporter whose first write and first read fail with a broken
  pipe and whose later ones succeed: one recovery for the write, one for the read, and
  the bytes of the second read are returned.\<close>

theorem Send_one_recovery_per_step_witness:
  "(\<exists>mb'. Send \<lparr>net_Dial = (\<lambda>k. None), net_Write = (\<lambda>k request. (0, Some (Errno 32))),
                  net_Read = (\<lambda>k. ([], None))\<rparr>
                \<lparr>conn = None, dials = 0, writes = 0, reads = 0, trace = []\<rparr> [0xA5, 0x0E, 0x00, 0x10, 0x45, 0x01, 0x00, 0x4F, 0xAD, 0x6D, 0xA5]
            = Some (([], Some (FailedToWrite (Errno 32))), mb')
          \<and> new_events \<lparr>conn = Some 0, dials = 1, writes = 0, reads = 0, trace = [Dialed]\<rparr> mb'
            = [Wrote 0 [0xA5, 0x0E, 0x00, 0x10, 0x45, 0x01, 0x00, 0x4F, 0xAD, 0x6D, 0xA5], Closed 0, Dialed, Wrote 1 [0xA5, 0x0E, 0x00, 0x10, 0x45, 0x01, 0x00, 0x4F, 0xAD, 0x6D, 0xA5]])
   \<and> (\<exists>mb'. Send \<lparr>net_Dial = (\<lambda>k. None), net_Write = (\<lambda>k request. (length request, None)),
                  net_Read = (\<lambda>k. ([], Some (Errno 32)))\<rparr>
                \<lparr>conn = Some 0, dials = 1, writes = 0, reads = 0, trace = []\<rparr> [0xA5, 0x0E, 0x00, 0x10, 0x45, 0x01, 0x00, 0x4F, 0xAD, 0x6D, 0xA5]
            = Some (([], Some (FailedToRead (Errno 32))), mb')
          \<and> new_events \<lparr>conn = Some 0, dials = 1, writes = 0, reads = 0, trace = []\<rparr> mb'
            = [Wrote 0 [0xA5, 0x0E, 0x00, 0x10, 0x45, 0x01, 0x00, 0x4F, 0xAD, 0x6D, 0xA5], ReadFrom 0, Closed 0, Dialed, Wrote 1 [0xA5, 0x0E, 0x00, 0x10, 0x45, 0x01, 0x00, 0x4F, 0xAD, 0x6D, 0xA5], ReadFrom 1])
   \<and> (\<exists>mb'. Send \<lparr>net_Dial = (\<lambda>k. None),
                  net_Write = (\<lambda>k request. if k = 0 then (0, Some (Errno 32))
                                                else (length request, None)),
                  net_Read = (\<lambda>k. if k = 0 then ([], Some (Errno 32))
                                        else ([0xA5, 0x0E, 0x00, 0x10, 0x15, 0x01, 0x00, 0x4F, 0xAD, 0x6D, 0xA5, 0x42, 0x15], None))\<rparr>
                \<lparr>conn = Some 0, dials = 1, writes = 0, reads = 0, trace = []\<rparr> [0xA5, 0x0E, 0x00, 0x10, 0x45, 0x01, 0x00, 0x4F, 0xAD, 0x6D, 0xA5]
            = Some (([0xA5, 0x0E, 0x00, 0x10, 0x15, 0x01, 0x00, 0x4F, 0xAD, 0x6D, 0xA5, 0x42, 0x15], None), mb')
          \<and> new_events \<lparr>conn = Some 0, dials = 1, writes = 0, reads = 0, trace = []\<rparr> mb'
            = [Wrote 0 [0xA5, 0x0E, 0x00, 0x10, 0x45, 0x01, 0x00, 0x4F, 0xAD, 0x6D, 0xA5], Closed 0, Dialed, Wrote 1 [0xA5, 0x0E, 0x00, 0x10, 0x45, 0x01, 0x00, 0x4F, 0xAD, 0x6D, 0xA5], ReadFrom 1, Closed 1, Dialed,
               Wrote 2 [0xA5, 0x0E, 0x00, 0x10, 0x45, 0x01, 0x00, 0x4F, 0xAD, 0x6D, 0xA5], ReadFrom 2])"
proof (intro conjI)
  let ?req = "[0xA5, 0x0E, 0x00, 0x10, 0x45, 0x01, 0x00, 0x4F, 0xAD, 0x6D, 0xA5] :: byte list"
  let ?resp = "[0xA5, 0x0E, 0x00, 0x10, 0x15, 0x01, 0x00, 0x4F, 0xAD, 0x6D, 0xA5, 0x42, 0x15] :: byte list"
  note defs = write_error_def read_error_def read_bytes_def reaches_read_def
    socket_at_read_def dials_at_read_def writes_at_read_def events_before_read_def EPIPE_def
  let ?mb = "\<lparr>conn = None, dials = 0, writes = 0, reads = 0, trace = []\<rparr>"
  let ?mb1 = "\<lparr>conn = Some 0, dials = 1, writes = 0, reads = 0, trace = [Dialed]\<rparr>"
  let ?net = "\<lparr>net_Dial = (\<lambda>k. None), net_Write = (\<lambda>k request. (0, Some (Errno 32))),
                  net_Read = (\<lambda>k. ([], None))\<rparr>"
  have dialled: "connect ?net ?mb = (None, ?mb1)" by (simp add: connect_def)
  have socket: "conn ?mb1 = Some 0" by simp
  have "errors_Is_EPIPE (write_error ?net (writes ?mb1) ?req) \<and> net_Dial ?net (dials ?mb1) = None
        \<and> write_error ?net (writes ?mb1 + 1) ?req = Some (Errno 32)"
    by (simp add: defs)
  from Send_one_recovery_per_step [OF dialled socket, of ?req "Errno 32", THEN conjunct2,
      THEN conjunct1, THEN mp, OF this]
  show "\<exists>mb'. Send ?net ?mb ?req = Some (([], Some (FailedToWrite (Errno 32))), mb')
          \<and> new_events ?mb1 mb' = [Wrote 0 ?req, Closed 0, Dialed, Wrote 1 ?req]"
    by simp
  let ?mb = "\<lparr>conn = Some 0, dials = 1, writes = 0, reads = 0, trace = []\<rparr>"
  let ?net = "\<lparr>net_Dial = (\<lambda>k. None), net_Write = (\<lambda>k request. (length request, None)),
                  net_Read = (\<lambda>k. ([], Some (Errno 32)))\<rparr>"
  have kept: "connect ?net ?mb = (None, ?mb)" by (simp add: connect_def)
  have socket: "conn ?mb = Some 0" by simp
  have "reaches_read ?net ?mb ?req \<and> errors_Is_EPIPE (read_error ?net (reads ?mb))
        \<and> net_Dial ?net (dials_at_read ?net ?mb ?req) = None
        \<and> write_error ?net (writes_at_read ?net ?mb ?req) ?req = None
        \<and> read_error ?net (reads ?mb + 1) = Some (Errno 32)"
    by (simp add: defs)
  from Send_one_recovery_per_step [OF kept socket, of ?req "Errno 32", THEN conjunct2,
      THEN conjunct2, THEN conjunct2, THEN conjunct2, THEN conjunct2, THEN conjunct1, THEN mp,
      OF this]
  show "\<exists>mb'. Send ?net ?mb ?req = Some (([], Some (FailedToRead (Errno 32))), mb')
          \<and> new_events ?mb mb'
            = [Wrote 0 ?req, ReadFrom 0, Closed 0, Dialed, Wrote 1 ?req, ReadFrom 1]"
    by (simp add: defs)
  let ?net = "\<lparr>net_Dial = (\<lambda>k. None),
                  net_Write = (\<lambda>k request. if k = 0 then (0, Some (Errno 32))
                                                else (length request, None)),
                  net_Read = (\<lambda>k. if k = 0 then ([], Some (Errno 32))
                                        else (?resp, None))\<rparr>"
  have kept: "connect ?net ?mb = (None, ?mb)" by (simp add: connect_def)
  have "reaches_read ?net ?mb ?req \<and> errors_Is_EPIPE (read_error ?net (reads ?mb))
        \<and> net_Dial ?net (dials_at_read ?net ?mb ?req) = None
        \<and> write_error ?net (writes_at_read ?net ?mb ?req) ?req = None
        \<and> read_error ?net (reads ?mb + 1) = None"
    by (simp add: defs)
  from Send_one_recovery_per_step [OF kept socket, of ?req "Errno 32", THEN conjunct2,
      THEN conjunct2, THEN conjunct2, THEN conjunct2, THEN conjunct2, THEN conjunct2,
      THEN conjunct1, THEN mp, OF this]
  show "\<exists>mb'. Send ?net ?mb ?req = Some ((?resp, None), mb')
          \<and> new_events ?mb mb'
            = [Wrote 0 ?req, Closed 0, Dialed, Wrote 1 ?req, ReadFrom 1, Closed 1, Dialed,
               Wrote 2 ?req, ReadFrom 2]"
    by (simp add: defs numeral_2_eq_2)
qed

end
